theory Spec2Isabelle
  imports Complex_Main
begin

section \<open>Python strings\<close>

text \<open>
  The text of the two entry fields is modelled as \<^typ>\<open>string\<close>: one \<^typ>\<open>char\<close> per
  code point, restricted to the code points below 256. On that range the regular
  expression class \<^verbatim>\<open>\d\<close> is exactly the ten ASCII digits, \<^verbatim>\<open>str.isdigit\<close> holds in
  addition for the three superscript digits, and \<^verbatim>\<open>str.isspace\<close> holds for the
  code points listed in \<open>py_isspace\<close>.
\<close>

definition newline :: char where
  "newline = CHR 0x0A"

definition re_digit :: "char \<Rightarrow> bool" where
  "re_digit c = (c \<in> set ''0123456789'')"

definition py_isspace :: "char \<Rightarrow> bool" where
  "py_isspace c =
     (let n = (of_char c :: nat)
      in (9 \<le> n \<and> n \<le> 13) \<or> (28 \<le> n \<and> n \<le> 32) \<or> n = 133 \<or> n = 160)"

definition py_isdigit_char :: "char \<Rightarrow> bool" where
  "py_isdigit_char c =
     (re_digit c \<or> (let n = (of_char c :: nat) in n = 178 \<or> n = 179 \<or> n = 185))"

text \<open>\<^verbatim>\<open>k.isdigit()\<close>: every character is a digit and there is at least one.\<close>

definition isdigit :: "string \<Rightarrow> bool" where
  "isdigit k = (k \<noteq> [] \<and> list_all py_isdigit_char k)"

text \<open>\<^verbatim>\<open>s.strip()\<close>: leading and trailing whitespace removed.\<close>

definition strip :: "string \<Rightarrow> string" where
  "strip s = rev (dropWhile py_isspace (rev (dropWhile py_isspace s)))"

section \<open>Regular expressions and \<^verbatim>\<open>re.match\<close>\<close>

text \<open>
  The two validators are \<^verbatim>\<open>re.match\<close> calls. A pattern is a term of \<open>rx\<close>; a match is
  found by taking derivatives character by character. \<^verbatim>\<open>re.match\<close> anchors the match at
  the start of the string only, so it succeeds as soon as some prefix of the string
  is in the pattern's language; the match object it returns is always truthy.
\<close>

datatype cls = Lit char | NotLit char | Digit

fun cls_mem :: "cls \<Rightarrow> char \<Rightarrow> bool" where
  "cls_mem (Lit a) c = (c = a)"
| "cls_mem (NotLit a) c = (c \<noteq> a)"
| "cls_mem Digit c = re_digit c"

datatype rx = Nothing | Empty | Sym cls | Either rx rx | Then rx rx | Many rx

definition OneOrMore :: "rx \<Rightarrow> rx" where
  "OneOrMore r = Then r (Many r)"

fun Times :: "nat \<Rightarrow> rx \<Rightarrow> rx" where
  "Times 0 r = Empty"
| "Times (Suc n) r = Then r (Times n r)"

fun nullable :: "rx \<Rightarrow> bool" where
  "nullable Nothing = False"
| "nullable Empty = True"
| "nullable (Sym a) = False"
| "nullable (Either r s) = (nullable r \<or> nullable s)"
| "nullable (Then r s) = (nullable r \<and> nullable s)"
| "nullable (Many r) = True"

fun deriv :: "char \<Rightarrow> rx \<Rightarrow> rx" where
  "deriv c Nothing = Nothing"
| "deriv c Empty = Nothing"
| "deriv c (Sym a) = (if cls_mem a c then Empty else Nothing)"
| "deriv c (Either r s) = Either (deriv c r) (deriv c s)"
| "deriv c (Then r s) =
     (if nullable r then Either (Then (deriv c r) s) (deriv c s) else Then (deriv c r) s)"
| "deriv c (Many r) = Then (deriv c r) (Many r)"

text \<open>\<^verbatim>\<open>re.match(r, s)\<close> for a pattern without anchors.\<close>

fun re_match :: "rx \<Rightarrow> string \<Rightarrow> bool" where
  "re_match r [] = nullable r"
| "re_match r (c # cs) = (nullable r \<or> re_match (deriv c r) cs)"

text \<open>
  \<^verbatim>\<open>re.match('^' + r + '$', s)\<close>: the leading \<^verbatim>\<open>^\<close> holds at the start, where
  \<^verbatim>\<open>re.match\<close> begins anyway; the trailing \<^verbatim>\<open>$\<close> holds at the end of the string and
  also just before a newline that is the last character of the string.
\<close>

fun re_match_eol :: "rx \<Rightarrow> string \<Rightarrow> bool" where
  "re_match_eol r [] = nullable r"
| "re_match_eol r (c # cs) =
     ((nullable r \<and> c = newline \<and> cs = []) \<or> re_match_eol (deriv c r) cs)"

text \<open>The language of a pattern, against which the matcher is justified.\<close>

definition conc :: "string set \<Rightarrow> string set \<Rightarrow> string set" where
  "conc A B = {u @ v | u v. u \<in> A \<and> v \<in> B}"

inductive_set star :: "string set \<Rightarrow> string set" for A :: "string set" where
  star_nil: "[] \<in> star A"
| star_app: "u \<in> A \<Longrightarrow> v \<in> star A \<Longrightarrow> u @ v \<in> star A"

fun lang :: "rx \<Rightarrow> string set" where
  "lang Nothing = {}"
| "lang Empty = {[]}"
| "lang (Sym a) = {[c] | c. cls_mem a c}"
| "lang (Either r s) = lang r \<union> lang s"
| "lang (Then r s) = conc (lang r) (lang s)"
| "lang (Many r) = star (lang r)"

section \<open>Validators and constants\<close>

text \<open>
  \<^verbatim>\<open>is_valid_email = lambda e: re.match(r"[^@]+@[^@]+\.[^@]+", e)\<close> and
  \<^verbatim>\<open>is_valid_phone = lambda p: re.match(r"^\d{10}$", p)\<close>.
\<close>

definition email_rx :: rx where
  "email_rx =
     Then (OneOrMore (Sym (NotLit CHR ''@'')))
       (Then (Sym (Lit CHR ''@''))
         (Then (OneOrMore (Sym (NotLit CHR ''@'')))
           (Then (Sym (Lit CHR ''.'')) (OneOrMore (Sym (NotLit CHR ''@''))))))"

definition phone_rx :: rx where
  "phone_rx = Times 10 (Sym Digit)"

definition is_valid_email :: "string \<Rightarrow> bool" where
  "is_valid_email e = re_match email_rx e"

definition is_valid_phone :: "string \<Rightarrow> bool" where
  "is_valid_phone p = re_match_eol phone_rx p"

text \<open>\<^verbatim>\<open>CARRIER_GATEWAYS\<close>: a dictionary literal, kept in insertion order.\<close>

definition CARRIER_GATEWAYS :: "(string \<times> string) list" where
  "CARRIER_GATEWAYS =
     [(''ATT'', ''@txt.att.net''),
      (''Verizon'', ''@vtext.com''),
      (''TMobile'', ''@tmomail.net''),
      (''Sprint'', ''@messaging.sprint.com'')]"

definition dict_values :: "('k \<times> 'v) list \<Rightarrow> 'v list" where
  "dict_values d = map snd d"

section \<open>The console progress bar\<close>

text \<open>
  \<^verbatim>\<open>show_progress(pct)\<close> on an integer argument. \<^verbatim>\<open>int(pct)\<close> is the identity there.
  \<^verbatim>\<open>BAR * pct / 100\<close> is a true division of two integers, correctly rounded to a
  float, and \<^verbatim>\<open>int(...)\<close> truncates it; the exact quotient is a non-negative multiple
  of one tenth, so the truncation is the integer quotient. A string times an integer
  is the empty string when the integer is not positive. The bar is a list of code
  points: U+2588 for a filled cell and U+00B7 for an empty one. The function returns
  the three locals that the printed line is built from.
\<close>

definition BAR :: int where
  "BAR = 30"

definition str_times :: "nat \<Rightarrow> int \<Rightarrow> nat list" where
  "str_times g n = replicate (nat n) g"

record progress_line =
  pl_pct :: int
  pl_filled :: int
  pl_barstr :: "nat list"

definition show_progress :: "int \<Rightarrow> progress_line" where
  "show_progress pct0 =
     (let pct = max 0 (min 100 pct0);
          filled = (BAR * pct) div 100;
          barstr = str_times 0x2588 filled @ str_times 0xB7 (BAR - filled)
      in \<lparr>pl_pct = pct, pl_filled = filled, pl_barstr = barstr\<rparr>)"

section \<open>Exceptions, effects and external calls\<close>

text \<open>
  The exception classes the program meets. \<^verbatim>\<open>SystemExit\<close> derives from
  \<^verbatim>\<open>BaseException\<close> only, so an \<^verbatim>\<open>except Exception\<close> clause lets it through; the other
  three are instances of \<^verbatim>\<open>Exception\<close>, and only \<open>OSError\<close> is caught by
  \<^verbatim>\<open>except OSError\<close>. Each carries its message.
\<close>

datatype exn = SystemExit string | OSError string | RuntimeError string | OtherError string

fun is_Exception :: "exn \<Rightarrow> bool" where
  "is_Exception (SystemExit m) = False"
| "is_Exception (OSError m) = True"
| "is_Exception (RuntimeError m) = True"
| "is_Exception (OtherError m) = True"

fun is_OSError :: "exn \<Rightarrow> bool" where
  "is_OSError (OSError m) = True"
| "is_OSError e = False"

text \<open>What a call into a library or the operating system did: it returned or it raised.\<close>

datatype 'a outcome = Returns 'a | Raises exn

text \<open>The threads the program starts and the callbacks it hands to the UI event loop.\<close>

datatype worker = RunConversion | StartUpload | WaitUntilDone

datatype callback = CbPlay string | CbPollPlayer | CbKeepAlive | CbFakeProgress | CbUpdateUploadStatus

text \<open>
  The lines the program prints, one constructor per \<^verbatim>\<open>print\<close> call of the modelled
  functions, with the interpolated values as arguments. A value that the source
  computes by floating-point arithmetic is either taken from outside (the estimate of
  the seconds remaining) or left out (the percentage of the upload shown).
\<close>

datatype msg =
    ErrLaunchingResolve exn
  | ErrHeadlessRender exn
  | DbgStartingUpload "string option"
  | DbgFileSize nat
  | DbgNoFileSize exn
  | DbgRequestingChunk nat
  | DbgProgress rat int
  | DbgStatusNone
  | DbgFileId "string option"
  | DbgChunkException exn
  | DbgSettingPermissions string
  | DbgPermissionsSet
  | DbgPermissionsException exn
  | DbgFinalLink string
  | DbgUpdatingUi int

datatype label_text = TxtEnhancing int | TxtComplete | TxtStartingUpload | TxtUploading int

datatype effect =
    Print msg
  | Sleep nat
  | SpawnThread worker
  | RootAfter nat callback
  | LabelConfig label_text
  | PlayMedia string
  | SpawnProcess "string list"
  | TrimToDuration string
  | TerminateSecondary
  | SecondaryLoops string
  | Mainloop

text \<open>An effect that reaches into the UI toolkit: a scheduled callback or a widget update.\<close>

fun ui_effect :: "effect \<Rightarrow> bool" where
  "ui_effect (RootAfter ms cb) = True"
| "ui_effect (LabelConfig t) = True"
| "ui_effect (PlayMedia p) = True"
| "ui_effect Mainloop = True"
| "ui_effect e = False"

text \<open>\<^verbatim>\<open>INPUT_VIDEO\<close>, its components joined by the backslash (code point 0x5C).\<close>

fun win_path :: "string list \<Rightarrow> string" where
  "win_path [] = []"
| "win_path [x] = x"
| "win_path (x # y # ys) = x @ [CHR 0x5C] @ win_path (y # ys)"

definition INPUT_VIDEO :: string where
  "INPUT_VIDEO =
     win_path [''C:'', ''Users'', ''agoll'', ''Desktop'', ''VPSRTfr'', ''Saved'', ''test_vide.mp4'']"

section \<open>The controller's fields\<close>

text \<open>
  The fields of \<^verbatim>\<open>VideoConverterApp\<close> that the handlers read and write. \<open>screen\<close>
  records which widgets \<^verbatim>\<open>_clear_below_status\<close> and the \<^verbatim>\<open>_show_*_ui\<close> methods have left
  below the status label; \<open>send_btn_enabled\<close> is the state of \<^verbatim>\<open>send_btn\<close>
  (\<^verbatim>\<open>'normal'\<close> or \<^verbatim>\<open>'disabled'\<close>). The progress fraction is a float in the source and a
  rational here.
\<close>

datatype screen = EmailScreen | PhoneScreen | RatingScreen | UploadScreen

record app =
  email_var :: string
  phone_var :: string
  conversion_done :: bool
  rating :: int
  upload_frac :: rat
  upload_rem :: int
  upload_done :: bool
  upload_link :: "string option"
  recipient_email :: "string option"
  recipient_sms_numbers :: "string list"
  converted :: "string option"
  screen :: screen
  send_btn_enabled :: bool

text \<open>The fields as \<^verbatim>\<open>__init__\<close> leaves them, with the email screen shown.\<close>

definition init_app :: app where
  "init_app =
     \<lparr>email_var = [], phone_var = [], conversion_done = False, rating = 0,
      upload_frac = 0, upload_rem = 0, upload_done = False, upload_link = None,
      recipient_email = None, recipient_sms_numbers = [], converted = None,
      screen = EmailScreen, send_btn_enabled = False\<rparr>"

section \<open>The wizard's handlers\<close>

definition show_phone_ui :: "app \<Rightarrow> app" where
  "show_phone_ui a = a\<lparr>screen := PhoneScreen\<rparr>"

text \<open>\<^verbatim>\<open>_show_rating_ui\<close> builds the five stars and a fresh, disabled Send Clip button.\<close>

definition show_rating_ui :: "app \<Rightarrow> app" where
  "show_rating_ui a = a\<lparr>screen := RatingScreen, send_btn_enabled := False\<rparr>"

definition email_key :: "string \<Rightarrow> app \<Rightarrow> app" where
  "email_key k a =
     (let cur = email_var a
      in if k = ''Backspace'' then a\<lparr>email_var := butlast cur\<rparr>
         else if k \<in> set [''gmail'', ''yahoo'', ''outlook''] \<and> CHR ''@'' \<notin> set cur
           then a\<lparr>email_var := cur @ ''@'' @ k @ ''.com''\<rparr>
         else a\<lparr>email_var := cur @ k\<rparr>)"

definition email_next :: "app \<Rightarrow> app" where
  "email_next a =
     (let e = strip (email_var a)
      in if \<not> is_valid_email e then a
         else show_phone_ui (a\<lparr>recipient_email := Some e\<rparr>))"

definition phone_key :: "string \<Rightarrow> app \<Rightarrow> app" where
  "phone_key k a =
     (let cur = phone_var a
      in if k = ''Del'' then a\<lparr>phone_var := []\<rparr>
         else if k = ''Back'' then a\<lparr>phone_var := butlast cur\<rparr>
         else if length cur < 10 \<and> isdigit k then a\<lparr>phone_var := cur @ k\<rparr>
         else a)"

definition phone_next :: "app \<Rightarrow> app" where
  "phone_next a =
     (let p = strip (phone_var a)
      in if \<not> is_valid_phone p then a
         else show_rating_ui
                (a\<lparr>recipient_sms_numbers := map (\<lambda>gw. p @ gw) (dict_values CARRIER_GATEWAYS)\<rparr>))"

text \<open>\<^verbatim>\<open>_set_rating(n)\<close>; the star glyphs it redraws are display only.\<close>

definition set_rating :: "int \<Rightarrow> app \<Rightarrow> app" where
  "set_rating n a =
     (let a1 = a\<lparr>rating := n\<rparr>
      in if conversion_done a1 \<and> rating a1 > 0 then a1\<lparr>send_btn_enabled := True\<rparr> else a1)"

text \<open>The keys of the on-screen phone keypad, row by row.\<close>

definition phone_keys :: "string list list" where
  "phone_keys =
     [[''1'', ''2'', ''3''], [''4'', ''5'', ''6''], [''7'', ''8'', ''9''], [''Back'', ''0'', ''Del'']]"

text \<open>\<^verbatim>\<open>int(x)\<close> on a float truncates towards zero.\<close>

definition py_int :: "rat \<Rightarrow> int" where
  "py_int x = (if 0 \<le> x then \<lfloor>x\<rfloor> else \<lceil>x\<rceil>)"

text \<open>
  The two one-second polls of the UI event loop. \<^verbatim>\<open>_schedule_fake_progress\<close> takes the
  value of \<^verbatim>\<open>(time.time() - self.start_time) / self.input_duration * 100\<close> as its
  argument; each re-arms itself with \<^verbatim>\<open>root.after(1000, ...)\<close> while its flag is
  still False. \<^verbatim>\<open>_update_upload_status\<close> shows the seconds remaining as stored; the
  percentage \<^verbatim>\<open>int(self.upload_frac * 100)\<close> it shows beside them is a floating-point
  product and is not part of the two messages here.
\<close>

definition schedule_fake_progress :: "rat \<Rightarrow> app \<Rightarrow> effect list" where
  "schedule_fake_progress x a =
     (if \<not> conversion_done a
      then [LabelConfig (TxtEnhancing (py_int (min 99 x))), RootAfter 1000 CbFakeProgress]
      else [LabelConfig TxtComplete])"

definition update_upload_status :: "app \<Rightarrow> effect list" where
  "update_upload_status a =
     (if \<not> upload_done a
      then (let rm = upload_rem a
            in [Print (DbgUpdatingUi rm), LabelConfig (TxtUploading rm),
                RootAfter 1000 CbUpdateUploadStatus])
      else [])"

text \<open>
  \<^verbatim>\<open>_on_send\<close>: the guard, then the upload screen, the upload thread, the first status
  poll and the delivery thread. \<^verbatim>\<open>self.rating\<close> is truthy when it is not zero.
\<close>

definition on_send :: "app \<Rightarrow> effect list \<times> app" where
  "on_send a =
     (if \<not> (conversion_done a \<and> rating a \<noteq> 0) then ([], a)
      else (let a1 = a\<lparr>screen := UploadScreen\<rparr>
            in ([LabelConfig TxtStartingUpload, SpawnThread StartUpload]
                  @ update_upload_status a1 @ [SpawnThread WaitUntilDone], a1)))"

section \<open>The render worker\<close>

text \<open>
  What the render worker meets outside the program: whether Resolve already runs, the
  three paths \<^verbatim>\<open>locate_paths\<close> computes from the environment variables and which of
  them exist, whether the process could be started, what \<^verbatim>\<open>headless_render\<close> did
  (the path of the rendered file, or the exception it raised), and whether the
  secondary players could be restarted.
\<close>

record render_env =
  resolve_running :: "bool outcome"
  required_paths :: "string \<times> string \<times> string"
  path_exists :: "string \<Rightarrow> bool"
  is_file :: "string \<Rightarrow> bool"
  popen_resolve :: "unit outcome"
  headless_render :: "string outcome"
  secondary_loops :: "unit outcome"

text \<open>
  \<^verbatim>\<open>locate_paths\<close> raises \<^verbatim>\<open>SystemExit\<close> at the first required path that does not exist.
  (The cross-mark glyph that opens the message in the source is left out.)
\<close>

definition locate_paths ::
  "(string \<Rightarrow> bool) \<Rightarrow> string \<times> string \<times> string \<Rightarrow> exn + (string \<times> string \<times> string)" where
  "locate_paths ex ps =
     (case ps of (exe, dll, mods) \<Rightarrow>
        (case filter (\<lambda>p. \<not> ex p) [exe, dll, mods] of
           [] \<Rightarrow> Inr (exe, dll, mods)
         | p # rest \<Rightarrow> Inl (SystemExit (''Required file not found: '' @ p))))"

definition launch_resolve_headless :: "render_env \<Rightarrow> effect list \<times> (exn + unit)" where
  "launch_resolve_headless env =
     (case resolve_running env of
        Raises e \<Rightarrow> ([], Inl e)
      | Returns True \<Rightarrow> ([], Inr ())
      | Returns False \<Rightarrow>
          (case locate_paths (path_exists env) (required_paths env) of
             Inl e \<Rightarrow> ([], Inl e)
           | Inr (exe, dll, mods) \<Rightarrow>
               if \<not> is_file env exe
               then ([], Inl (SystemExit (''Resolve.exe not found at '' @ exe)))
               else (case popen_resolve env of
                       Raises e \<Rightarrow> ([], Inl e)
                     | Returns u \<Rightarrow> ([SpawnProcess [exe, ''-nogui'']], Inr ()))))"

text \<open>
  \<^verbatim>\<open>_run_conversion\<close>, the body of the render thread. The third component of the
  result is the exception that leaves the function, if one does.
\<close>

definition run_conversion :: "render_env \<Rightarrow> app \<Rightarrow> effect list \<times> app \<times> exn option" where
  "run_conversion env a =
     (case launch_resolve_headless env of
        (fx, Inl e) \<Rightarrow>
          if is_Exception e then (fx @ [Print (ErrLaunchingResolve e)], a, None)
          else (fx, a, Some e)
      | (fx, Inr u) \<Rightarrow>
          (case headless_render env of
             Raises e \<Rightarrow>
               if is_Exception e then (fx @ [Print (ErrHeadlessRender e)], a, None)
               else (fx, a, Some e)
           | Returns out_path \<Rightarrow>
               (let a1 = a\<lparr>converted := Some out_path, conversion_done := True\<rparr>;
                    fx1 = fx @ [TrimToDuration out_path, TerminateSecondary]
                in case secondary_loops env of
                     Raises e \<Rightarrow> (fx1, a1, Some e)
                   | Returns u \<Rightarrow>
                       (fx1 @ [SecondaryLoops out_path, RootAfter 0 (CbPlay out_path)],
                        a1, None))))"

section \<open>The upload worker\<close>

text \<open>
  What the upload worker meets: the Drive client, the size of the file, the
  resumable upload request, and, for the \<open>n\<close>-th call of \<^verbatim>\<open>req.next_chunk()\<close>, its
  outcome and the value that \<^verbatim>\<open>int((time.time() - start) * (1 - frac) / frac)\<close> takes
  after it, a floating-point expression over the clock. \<^verbatim>\<open>next_chunk\<close> returns a
  pair: a status (\<^verbatim>\<open>None\<close>, or an object whose \<^verbatim>\<open>progress()\<close> is a fraction) and a
  response (\<^verbatim>\<open>None\<close>, or the dictionary of the created file).
\<close>

type_synonym chunk = "rat option \<times> (string \<times> string) list option"

record upload_env =
  build_drive :: "unit outcome"
  getsize :: "nat outcome"
  media_upload :: "unit outcome"
  next_chunk :: "nat \<Rightarrow> chunk outcome"
  remaining :: "nat \<Rightarrow> int"
  set_permissions :: "unit outcome"

definition note_status :: "int \<Rightarrow> rat option \<Rightarrow> app \<Rightarrow> effect list \<times> app" where
  "note_status t status a =
     (case status of
        Some fr \<Rightarrow>
          (let rm = (if fr > 0 then t else 0)
           in ([Print (DbgProgress fr rm)], a\<lparr>upload_frac := fr, upload_rem := rm\<rparr>))
      | None \<Rightarrow> ([Print DbgStatusNone], a))"

text \<open>\<^verbatim>\<open>if resp:\<close> holds for a dictionary that is not empty; \<^verbatim>\<open>resp.get('id')\<close> may be \<^verbatim>\<open>None\<close>.\<close>

definition note_resp ::
  "(string \<times> string) list option \<Rightarrow> app \<Rightarrow> effect list \<times> app \<times> string option" where
  "note_resp resp a =
     (case resp of
        None \<Rightarrow> ([], a, None)
      | Some kv \<Rightarrow>
          if kv = [] then ([], a, None)
          else (let fid = map_of kv ''id''
                in ([Print (DbgFileId fid)], a\<lparr>upload_frac := 1, upload_rem := 0\<rparr>, fid)))"

text \<open>
  The loop \<^verbatim>\<open>while fid is None\<close> of \<^verbatim>\<open>_start_upload\<close>, entered with the attempts made so
  far. It may run forever, and then has no value.
\<close>

partial_function (option) chunk_loop ::
  "upload_env \<Rightarrow> nat \<Rightarrow> effect list \<Rightarrow> app \<Rightarrow> (effect list \<times> app \<times> (exn + string)) option" where
  "chunk_loop env attempt fx a =
     (let attempt1 = attempt + 1;
          fx1 = fx @ [Print (DbgRequestingChunk attempt1)]
      in case next_chunk env attempt1 of
           Raises e \<Rightarrow>
             if is_Exception e
             then chunk_loop env attempt1 (fx1 @ [Print (DbgChunkException e), Sleep 1]) a
             else Some (fx1, a, Inl e)
         | Returns (status, resp) \<Rightarrow>
             (case note_status (remaining env attempt1) status a of (fx2, a2) \<Rightarrow>
              case note_resp resp a2 of (fx3, a3, fid) \<Rightarrow>
                (case fid of
                   None \<Rightarrow> chunk_loop env attempt1 (fx1 @ fx2 @ fx3) a3
                 | Some f \<Rightarrow> Some (fx1 @ fx2 @ fx3, a3, Inr f))))"

declare chunk_loop.simps [code]

text \<open>A call wrapped in \<^verbatim>\<open>try ... except Exception as e: print(...)\<close> that goes on after the print.\<close>

definition printed_and_ignored :: "'a outcome \<Rightarrow> ('a \<Rightarrow> msg) \<Rightarrow> (exn \<Rightarrow> msg) \<Rightarrow> exn + effect list" where
  "printed_and_ignored r ok err =
     (case r of
        Returns v \<Rightarrow> Inr [Print (ok v)]
      | Raises e \<Rightarrow> if is_Exception e then Inr [Print (err e)] else Inl e)"

text \<open>
  \<^verbatim>\<open>_start_upload\<close>, the body of the upload thread: \<open>None\<close> when the chunk loop never ends,
  otherwise the effects, the fields and the exception that leaves the function, if any.
\<close>

definition start_upload :: "upload_env \<Rightarrow> app \<Rightarrow> (effect list \<times> app \<times> exn option) option" where
  "start_upload env a =
     (let fx0 = [Print (DbgStartingUpload (converted a))]
      in case build_drive env of
           Raises e \<Rightarrow> Some (fx0, a, Some e)
         | Returns u \<Rightarrow>
             (case printed_and_ignored (getsize env) DbgFileSize DbgNoFileSize of
                Inl e \<Rightarrow> Some (fx0, a, Some e)
              | Inr fxs \<Rightarrow>
                  (case media_upload env of
                     Raises e \<Rightarrow> Some (fx0 @ fxs, a, Some e)
                   | Returns u \<Rightarrow>
                       (case chunk_loop env 0 (fx0 @ fxs) a of
                          None \<Rightarrow> None
                        | Some (fx1, a1, Inl e) \<Rightarrow> Some (fx1, a1, Some e)
                        | Some (fx1, a1, Inr fid) \<Rightarrow>
                            (let fx2 = fx1 @ [Print (DbgSettingPermissions fid)]
                             in case printed_and_ignored (set_permissions env)
                                       (\<lambda>u. DbgPermissionsSet) DbgPermissionsException of
                                  Inl e \<Rightarrow> Some (fx2, a1, Some e)
                                | Inr fxp \<Rightarrow>
                                    (let link = ''https://drive.google.com/file/d/'' @ fid
                                                  @ ''/view?usp=sharing''
                                     in Some (fx2 @ fxp @ [Print (DbgFinalLink link)],
                                              a1\<lparr>upload_link := Some link, upload_done := True\<rparr>,
                                              None)))))))"

section \<open>Start of the process\<close>

text \<open>
  The guard socket at module level: \<^verbatim>\<open>socket.socket(...)\<close>, then
  \<^verbatim>\<open>bind(('localhost', 65432))\<close>, both inside \<^verbatim>\<open>try ... except OSError: sys.exit('Already
  running.')\<close>. The result is the exception that ends the module, if any.
\<close>

definition GUARD_PORT :: nat where
  "GUARD_PORT = 65432"

record startup_env =
  sock_create :: "unit outcome"
  sock_bind :: "string \<times> nat \<Rightarrow> unit outcome"

definition already_running :: "exn \<Rightarrow> exn" where
  "already_running e = (if is_OSError e then SystemExit ''Already running.'' else e)"

definition guard_sock :: "startup_env \<Rightarrow> exn option" where
  "guard_sock env =
     (case sock_create env of
        Raises e \<Rightarrow> Some (already_running e)
      | Returns u \<Rightarrow>
          (case sock_bind env (''localhost'', GUARD_PORT) of
             Raises e \<Rightarrow> Some (already_running e)
           | Returns u \<Rightarrow> None))"

text \<open>
  \<^verbatim>\<open>VideoConverterApp.__init__\<close> with \<^verbatim>\<open>_build_ui\<close>: the raw clip starts to play, the two
  housekeeping timers are armed, the render thread is started and the progress poll
  runs for the first time (its argument as in \<open>schedule_fake_progress\<close>).
\<close>

definition app_init :: "rat \<Rightarrow> effect list \<times> app" where
  "app_init x =
     ([PlayMedia INPUT_VIDEO, LabelConfig (TxtEnhancing 0), RootAfter 500 CbPollPlayer,
       RootAfter 1000 CbKeepAlive, SpawnThread RunConversion]
        @ schedule_fake_progress x init_app,
      init_app)"

text \<open>
  The module from the guard on: the guard, the secondary players on the raw clip, the
  controller, the event loop. Nothing before the guard does more than import modules
  and define constants and functions.
\<close>

definition main_script :: "startup_env \<Rightarrow> rat \<Rightarrow> effect list \<times> app option \<times> exn option" where
  "main_script env x =
     (case guard_sock env of
        Some e \<Rightarrow> ([], None, Some e)
      | None \<Rightarrow>
          (case app_init x of (fx, a) \<Rightarrow>
             ([SecondaryLoops INPUT_VIDEO] @ fx @ [Mainloop], Some a, None)))"

section \<open>A session as a sequence of events\<close>

text \<open>
  What can happen to the controller's fields once \<^verbatim>\<open>__init__\<close> has run: a key of an
  on-screen keyboard, text typed into the focused entry, a Next button, a star, the
  Send Clip button, a tick of one of the two polls, and the render thread running to
  its end. A button acts only while it exists, that is on its own screen; the Send
  Clip button calls \<^verbatim>\<open>_on_send\<close> from its release binding whatever its state.
\<close>

datatype event =
    EmailKey string
  | EmailTyped string
  | EmailNext
  | PhoneKey string
  | PhoneTyped string
  | PhoneNext
  | StarClick nat
  | SendClick
  | TickFakeProgress rat
  | TickUploadStatus
  | RenderThread render_env

fun step :: "event \<Rightarrow> app \<Rightarrow> effect list \<times> app" where
  "step (EmailKey k) a = ([], if screen a = EmailScreen then email_key k a else a)"
| "step (EmailTyped s) a = ([], if screen a = EmailScreen then a\<lparr>email_var := s\<rparr> else a)"
| "step EmailNext a = ([], if screen a = EmailScreen then email_next a else a)"
| "step (PhoneKey k) a = ([], if screen a = PhoneScreen then phone_key k a else a)"
| "step (PhoneTyped s) a = ([], if screen a = PhoneScreen then a\<lparr>phone_var := s\<rparr> else a)"
| "step PhoneNext a = ([], if screen a = PhoneScreen then phone_next a else a)"
| "step (StarClick i) a =
     ([], if screen a = RatingScreen \<and> i < 5 then set_rating (int i + 1) a else a)"
| "step SendClick a = (if screen a = RatingScreen then on_send a else ([], a))"
| "step (TickFakeProgress x) a = (schedule_fake_progress x a, a)"
| "step TickUploadStatus a = (if screen a = UploadScreen then update_upload_status a else [], a)"
| "step (RenderThread env) a = (case run_conversion env a of (fx, a1, e) \<Rightarrow> (fx, a1))"

fun run :: "event list \<Rightarrow> app \<Rightarrow> effect list \<times> app" where
  "run [] a = ([], a)"
| "run (e # es) a =
     (case step e a of (fx, a1) \<Rightarrow> (case run es a1 of (fx', a2) \<Rightarrow> (fx @ fx', a2)))"

section \<open>Outcomes of a chunk request\<close>

text \<open>
  The file ID that an outcome of \<^verbatim>\<open>next_chunk\<close> carries, as the loop reads it: the value
  under \<^verbatim>\<open>'id'\<close> of a response that is a non-empty dictionary. An outcome is \<open>caught\<close> when
  the loop goes on after it unless it carries a file ID: a return, or a raise of an
  instance of \<^verbatim>\<open>Exception\<close>.
\<close>

definition file_id :: "chunk outcome \<Rightarrow> string option" where
  "file_id r =
     (case r of
        Raises e \<Rightarrow> None
      | Returns (status, resp) \<Rightarrow>
          (case resp of None \<Rightarrow> None | Some kv \<Rightarrow> if kv = [] then None else map_of kv ''id''))"

definition caught :: "chunk outcome \<Rightarrow> bool" where
  "caught r = (case r of Raises e \<Rightarrow> is_Exception e | Returns c \<Rightarrow> True)"

text \<open>
  One pass of the body of the loop that does not leave it, as the attempt numbered \<open>k\<close>
  changes the trace and the fields: the request line, then either the exception line
  and the sleep of one second, or what the status and the response add.
\<close>

definition after_attempt :: "upload_env \<Rightarrow> nat \<Rightarrow> effect list \<times> app \<Rightarrow> effect list \<times> app" where
  "after_attempt env k s =
     (case s of (fx, a) \<Rightarrow>
        (let fx1 = fx @ [Print (DbgRequestingChunk k)]
         in case next_chunk env k of
              Raises e \<Rightarrow> (fx1 @ [Print (DbgChunkException e), Sleep 1], a)
            | Returns (status, resp) \<Rightarrow>
                (case note_status (remaining env k) status a of (fx2, a2) \<Rightarrow>
                 case note_resp resp a2 of (fx3, a3, fid) \<Rightarrow> (fx1 @ fx2 @ fx3, a3))))"

section \<open>What holds on every screen\<close>

text \<open>
  The invariant of a session: the rating is never negative, the Send Clip button is
  enabled only once the render is complete and a rating is given, an accepted email
  address is stored on every screen after the first, and the gateway addresses of an
  accepted phone number are stored from the rating screen on.
\<close>

definition wizard_inv :: "app \<Rightarrow> bool" where
  "wizard_inv a =
     (0 \<le> rating a \<and>
      (send_btn_enabled a \<longrightarrow> conversion_done a \<and> 0 < rating a) \<and>
      (screen a \<noteq> EmailScreen \<longrightarrow> (\<exists>e. recipient_email a = Some e \<and> is_valid_email e)) \<and>
      (screen a = RatingScreen \<or> screen a = UploadScreen \<longrightarrow>
         (\<exists>p. is_valid_phone p \<and>
              recipient_sms_numbers a = map (\<lambda>gw. p @ gw) (dict_values CARRIER_GATEWAYS))))"

section \<open>The matcher decides the language\<close>

lemma conc_nil_mem: "[] \<in> conc A B \<longleftrightarrow> [] \<in> A \<and> [] \<in> B"
  by (auto simp: conc_def)

lemma nullable_lang: "nullable r \<longleftrightarrow> [] \<in> lang r"
  by (induction r) (auto simp: conc_nil_mem intro: star.star_nil)

lemma star_cons_split:
  assumes "x \<in> star A" and "x = c # w"
  shows "\<exists>u v. w = u @ v \<and> c # u \<in> A \<and> v \<in> star A"
  using assms
proof (induction arbitrary: w rule: star.induct)
  case star_nil
  then show ?case by simp
next
  case (star_app u v)
  show ?case
  proof (cases u)
    case Nil
    with star_app show ?thesis by simp
  next
    case (Cons a u')
    with star_app.prems have "a = c" and "w = u' @ v" by simp_all
    with Cons star_app.hyps show ?thesis by blast
  qed
qed

lemma star_cons_iff:
  "c # w \<in> star A \<longleftrightarrow> (\<exists>u v. w = u @ v \<and> c # u \<in> A \<and> v \<in> star A)"
proof
  assume "c # w \<in> star A"
  then show "\<exists>u v. w = u @ v \<and> c # u \<in> A \<and> v \<in> star A"
    by (rule star_cons_split) simp
next
  assume "\<exists>u v. w = u @ v \<and> c # u \<in> A \<and> v \<in> star A"
  then obtain u v where "w = u @ v" "c # u \<in> A" "v \<in> star A" by blast
  then have "(c # u) @ v \<in> star A" by (blast intro: star.star_app)
  with \<open>w = u @ v\<close> show "c # w \<in> star A" by simp
qed

lemma conc_cons_iff:
  "c # w \<in> conc A B \<longleftrightarrow>
     (\<exists>u v. w = u @ v \<and> c # u \<in> A \<and> v \<in> B) \<or> ([] \<in> A \<and> c # w \<in> B)"
  by (auto simp: conc_def Cons_eq_append_conv) 

lemma deriv_lang: "w \<in> lang (deriv c r) \<longleftrightarrow> c # w \<in> lang r"
proof (induction r arbitrary: w)
  case (Then r s)
  show ?case
    by (auto simp: conc_cons_iff Then nullable_lang) (auto simp: conc_def Then)
next
  case (Many r)
  show ?case
    by (auto simp: star_cons_iff Many conc_def)
qed auto

lemma re_match_iff: "re_match r s \<longleftrightarrow> (\<exists>u v. s = u @ v \<and> u \<in> lang r)"
proof (induction s arbitrary: r)
  case Nil
  show ?case by (simp add: nullable_lang)
next
  case (Cons c cs)
  show ?case
    by (auto simp: Cons nullable_lang deriv_lang Cons_eq_append_conv)
qed

lemma re_match_eol_iff:
  "re_match_eol r s \<longleftrightarrow> s \<in> lang r \<or> (\<exists>u. s = u @ [newline] \<and> u \<in> lang r)"
proof (induction s arbitrary: r)
  case Nil
  show ?case by (simp add: nullable_lang)
next
  case (Cons c cs)
  show ?case
    by (auto simp: Cons nullable_lang deriv_lang Cons_eq_append_conv)
qed

lemma star_sym: "star {[c] | c. P c} = {w. \<forall>c \<in> set w. P c}"
proof (rule set_eqI, rule iffI)
  fix w assume "w \<in> star {[c] | c. P c}"
  then show "w \<in> {w. \<forall>c \<in> set w. P c}"
    by (induction rule: star.induct) auto
next
  fix w assume "w \<in> {w. \<forall>c \<in> set w. P c}"
  then have "\<forall>c \<in> set w. P c" by simp
  then show "w \<in> star {[c] | c. P c}"
  proof (induction w)
    case Nil
    show ?case by (rule star.star_nil)
  next
    case (Cons a w)
    then have "[a] \<in> {[c] | c. P c}" and "w \<in> star {[c] | c. P c}" by auto
    then have "[a] @ w \<in> star {[c] | c. P c}" by (rule star.star_app)
    then show ?case by simp
  qed
qed

lemma conc_sym: "conc {[c] | c. P c} B = {c # v | c v. P c \<and> v \<in> B}"
proof -
  have "\<And>c v. P c \<Longrightarrow> v \<in> B \<Longrightarrow> \<exists>u v'. c # v = u @ v' \<and> (\<exists>d. u = [d] \<and> P d) \<and> v' \<in> B"
  proof -
    fix c v assume "P c" "v \<in> B"
    then have "c # v = [c] @ v \<and> (\<exists>d. [c] = [d] \<and> P d) \<and> v \<in> B" by simp
    then show "\<exists>u v'. c # v = u @ v' \<and> (\<exists>d. u = [d] \<and> P d) \<and> v' \<in> B" by blast
  qed
  then show ?thesis by (auto simp: conc_def)
qed

lemma lang_not_at: "lang (OneOrMore (Sym (NotLit a))) = {w. w \<noteq> [] \<and> a \<notin> set w}"
proof -
  have "lang (OneOrMore (Sym (NotLit a))) = conc {[c] | c. c \<noteq> a} {w. \<forall>c \<in> set w. c \<noteq> a}"
    using star_sym [of "\<lambda>c. c \<noteq> a"] by (simp add: OneOrMore_def)
  also have "\<dots> = {w. w \<noteq> [] \<and> a \<notin> set w}"
    by (auto simp: conc_sym neq_Nil_conv)
  finally show ?thesis .
qed

lemma lang_times_digit: "lang (Times n (Sym Digit)) = {w. length w = n \<and> list_all re_digit w}"
proof (induction n)
  case 0
  show ?case by auto
next
  case (Suc n)
  show ?case
    by (auto simp: Suc conc_sym length_Suc_conv)
qed

lemma is_valid_phone_iff:
  "is_valid_phone p \<longleftrightarrow>
     (length p = 10 \<and> list_all re_digit p) \<or>
     (\<exists>d. p = d @ [newline] \<and> length d = 10 \<and> list_all re_digit d)"
  by (auto simp: is_valid_phone_def phone_rx_def re_match_eol_iff lang_times_digit)

lemma lang_email:
  "lang email_rx =
     {u @ CHR ''@'' # v @ CHR ''.'' # w | u v w.
        u \<noteq> [] \<and> CHR ''@'' \<notin> set u \<and> v \<noteq> [] \<and> CHR ''@'' \<notin> set v \<and>
        w \<noteq> [] \<and> CHR ''@'' \<notin> set w}"
  unfolding email_rx_def lang.simps lang_not_at
  by (auto simp: conc_def) blast+

section \<open>The progress bar stays in range\<close>

text \<open>
  Claim C10. \<^verbatim>\<open>show_progress\<close> has a value on every integer: the percentage it shows
  is the argument clamped to the range from 0 to 100, the number of filled cells lies
  between 0 and 30, and the bar has exactly 30 glyphs, the filled ones first.
\<close>

theorem show_progress_in_range:
  "pl_pct (show_progress p) = max 0 (min 100 p) \<and>
   0 \<le> pl_pct (show_progress p) \<and> pl_pct (show_progress p) \<le> 100 \<and>
   0 \<le> pl_filled (show_progress p) \<and> pl_filled (show_progress p) \<le> 30 \<and>
   length (pl_barstr (show_progress p)) = 30 \<and>
   pl_barstr (show_progress p) =
     replicate (nat (pl_filled (show_progress p))) 0x2588
       @ replicate (30 - nat (pl_filled (show_progress p))) 0xB7"
  by (auto simp: show_progress_def Let_def BAR_def str_times_def nat_diff_distrib)

section \<open>Stripping and the phone pattern\<close>

lemma re_digit_not_space: "re_digit c \<Longrightarrow> \<not> py_isspace c"
  by (auto simp: re_digit_def py_isspace_def)

lemma strip_id:
  assumes "s = [] \<or> (\<not> py_isspace (hd s) \<and> \<not> py_isspace (last s))"
  shows "strip s = s"
proof (cases s)
  case Nil
  then show ?thesis by (simp add: strip_def)
next
  case (Cons c cs)
  with assms have h: "\<not> py_isspace (hd s)" and l: "\<not> py_isspace (last s)" by auto
  from Cons h have 1: "dropWhile py_isspace s = s" by simp
  from Cons have "rev s \<noteq> []" by simp
  moreover from \<open>rev s \<noteq> []\<close> l have "\<not> py_isspace (hd (rev s))" by (metis hd_rev rev_is_Nil_conv)
  ultimately have 2: "dropWhile py_isspace (rev s) = rev s" by (cases "rev s") auto
  show ?thesis by (simp add: strip_def 1 2)
qed

lemma strip_digits: "list_all re_digit s \<Longrightarrow> strip s = s"
proof (rule strip_id, cases s)
  case Nil
  then show "s = [] \<or> (\<not> py_isspace (hd s) \<and> \<not> py_isspace (last s))" by simp
next
  case (Cons c cs)
  assume d: "list_all re_digit s"
  with Cons have "re_digit (hd s)" by simp
  moreover from d Cons have "re_digit (last s)"
    by (metis last_in_set list.distinct(1) list_all_iff)
  ultimately show "s = [] \<or> (\<not> py_isspace (hd s) \<and> \<not> py_isspace (last s))"
    by (simp add: re_digit_not_space)
qed

lemma strip_last_not_space: "strip s \<noteq> [] \<Longrightarrow> \<not> py_isspace (last (strip s))"
proof -
  assume ne: "strip s \<noteq> []"
  define u where "u = dropWhile py_isspace (rev (dropWhile py_isspace s))"
  have s: "strip s = rev u" by (simp add: strip_def u_def)
  with ne have "u \<noteq> []" by simp
  then have "\<not> py_isspace (hd u)" unfolding u_def by (rule hd_dropWhile)
  moreover from \<open>u \<noteq> []\<close> have "last (rev u) = hd u" by (simp add: last_rev)
  ultimately show ?thesis by (simp add: s)
qed

lemma newline_space: "py_isspace newline"
  by (simp add: py_isspace_def newline_def)

lemma valid_stripped_phone:
  "is_valid_phone (strip f) \<longleftrightarrow> length (strip f) = 10 \<and> list_all re_digit (strip f)"
proof -
  have "\<not> (\<exists>d. strip f = d @ [newline])"
  proof
    assume "\<exists>d. strip f = d @ [newline]"
    then obtain d where d: "strip f = d @ [newline]" by blast
    then have "strip f \<noteq> []" by simp
    then have "\<not> py_isspace (last (strip f))" by (rule strip_last_not_space)
    with d show False by (simp add: newline_space)
  qed
  then show ?thesis by (auto simp: is_valid_phone_iff)
qed

section \<open>The gateway addresses\<close>

text \<open>
  Claim C7. Let \<open>p\<close> be the text \<^verbatim>\<open>_phone_next\<close> reads from the phone field (stripped, as
  the handler strips it). If \<open>p\<close> passes \<^verbatim>\<open>is_valid_phone\<close>, then \<open>p\<close> is exactly ten
  digits and the handler sets \<^verbatim>\<open>recipient_sms_numbers\<close> to exactly four addresses: \<open>p\<close>
  followed by the AT&T, Verizon, T-Mobile and Sprint gateway suffixes, in the order
  of the dictionary, and shows the rating screen.
\<close>

theorem phone_next_gateways:
  assumes "p = strip (phone_var a)" and "is_valid_phone p"
  shows "recipient_sms_numbers (phone_next a) =
           [p @ ''@txt.att.net'', p @ ''@vtext.com'', p @ ''@tmomail.net'',
            p @ ''@messaging.sprint.com''] \<and>
         length (recipient_sms_numbers (phone_next a)) = 4 \<and>
         length p = 10 \<and> list_all re_digit p \<and>
         screen (phone_next a) = RatingScreen"
  using assms valid_stripped_phone [of "phone_var a"]
  by (simp add: phone_next_def show_rating_ui_def dict_values_def CARRIER_GATEWAYS_def Let_def)

text \<open>The theorem at the field text 5551234567.\<close>

theorem phone_next_gateways_witness:
  "is_valid_phone ''5551234567'' \<and>
   recipient_sms_numbers (phone_next (init_app\<lparr>phone_var := ''5551234567''\<rparr>)) =
     [''5551234567@txt.att.net'', ''5551234567@vtext.com'', ''5551234567@tmomail.net'',
      ''5551234567@messaging.sprint.com'']"
proof -
  have s: "''5551234567'' = strip (phone_var (init_app\<lparr>phone_var := ''5551234567''\<rparr>))"
    by (simp add: strip_def py_isspace_def)
  have v: "is_valid_phone ''5551234567''"
    by (simp add: is_valid_phone_def phone_rx_def eval_nat_numeral re_digit_def)
  from phone_next_gateways [OF s v] v show ?thesis by simp
qed

section \<open>The phone keypad\<close>

lemma keypad_cases:
  "k \<in> set (concat phone_keys) \<Longrightarrow>
     k = ''Del'' \<or> k = ''Back'' \<or> (\<exists>c. k = [c] \<and> re_digit c)"
  by (auto simp: phone_keys_def re_digit_def)

lemma isdigit_single: "re_digit c \<Longrightarrow> isdigit [c]"
  by (simp add: isdigit_def py_isdigit_char_def)

lemma phone_key_ok:
  assumes "k \<in> set (concat phone_keys)"
    and "list_all re_digit (phone_var a) \<and> length (phone_var a) \<le> 10"
  shows "list_all re_digit (phone_var (phone_key k a)) \<and> length (phone_var (phone_key k a)) \<le> 10"
proof -
  from assms(1) consider "k = ''Del''" | "k = ''Back''" | c where "k = [c]" "re_digit c"
    using keypad_cases by blast
  then show ?thesis
  proof cases
    case 1
    then show ?thesis by (simp add: phone_key_def)
  next
    case 2
    with assms(2) show ?thesis
      by (auto simp: phone_key_def list_all_iff dest: in_set_butlastD)
  next
    case 3
    with assms(2) show ?thesis
      by (auto simp: phone_key_def Let_def)
  qed
qed

lemma fold_phone_key_ok:
  "set ks \<subseteq> set (concat phone_keys) \<Longrightarrow>
   list_all re_digit (phone_var a) \<and> length (phone_var a) \<le> 10 \<Longrightarrow>
     list_all re_digit (phone_var (fold phone_key ks a)) \<and>
     length (phone_var (fold phone_key ks a)) \<le> 10"
proof (induction ks arbitrary: a)
  case Nil
  then show ?case by simp
next
  case (Cons k ks)
  from Cons.prems(1) have k: "k \<in> set (concat phone_keys)"
    and ks: "set ks \<subseteq> set (concat phone_keys)"
    by (simp_all del: set_concat)
  from k Cons.prems(2)
  have "list_all re_digit (phone_var (phone_key k a)) \<and> length (phone_var (phone_key k a)) \<le> 10"
    by (rule phone_key_ok)
  with ks have "list_all re_digit (phone_var (fold phone_key ks (phone_key k a))) \<and>
     length (phone_var (fold phone_key ks (phone_key k a))) \<le> 10"
    by (rule Cons.IH)
  then show ?case by simp
qed

text \<open>
  Claim C8. Starting from the empty field, after any sequence of keys of the on-screen
  keypad the phone field holds only digits and at most ten of them, and the check made
  by Next (\<^verbatim>\<open>is_valid_phone\<close> on the stripped field) succeeds exactly when the field
  holds ten characters. On any field, Del clears it, Back drops its last character,
  and a digit key appends its digit while the field is shorter than ten and does
  nothing otherwise.
\<close>

theorem phone_keypad_field:
  assumes "set ks \<subseteq> set (concat phone_keys)" and "phone_var a = []"
  shows "list_all re_digit (phone_var (fold phone_key ks a)) \<and>
         length (phone_var (fold phone_key ks a)) \<le> 10 \<and>
         (is_valid_phone (strip (phone_var (fold phone_key ks a))) \<longleftrightarrow>
            length (phone_var (fold phone_key ks a)) = 10) \<and>
         phone_var (phone_key ''Del'' b) = [] \<and>
         phone_var (phone_key ''Back'' b) = butlast (phone_var b) \<and>
         (\<forall>c. re_digit c \<longrightarrow>
            phone_var (phone_key [c] b) =
              (if length (phone_var b) < 10 then phone_var b @ [c] else phone_var b))"
proof -
  from assms have ok: "list_all re_digit (phone_var (fold phone_key ks a)) \<and>
      length (phone_var (fold phone_key ks a)) \<le> 10"
    by (intro fold_phone_key_ok) simp_all
  then have "strip (phone_var (fold phone_key ks a)) = phone_var (fold phone_key ks a)"
    by (simp add: strip_digits)
  with ok have v: "is_valid_phone (strip (phone_var (fold phone_key ks a))) \<longleftrightarrow>
            length (phone_var (fold phone_key ks a)) = 10"
    using valid_stripped_phone [of "phone_var (fold phone_key ks a)"] by simp
  have keys: "phone_var (phone_key ''Del'' b) = [] \<and>
         phone_var (phone_key ''Back'' b) = butlast (phone_var b) \<and>
         (\<forall>c. re_digit c \<longrightarrow>
            phone_var (phone_key [c] b) =
              (if length (phone_var b) < 10 then phone_var b @ [c] else phone_var b))"
    by (simp add: phone_key_def Let_def isdigit_single)
  from ok v keys show ?thesis by blast
qed

text \<open>
  The theorem at thirteen key presses that fill the field with 5551234567, the last
  digit key being ignored, and at one more digit key on the full field.
\<close>

theorem phone_keypad_field_witness:
  "set [''5'', ''5'', ''5'', ''Back'', ''5'', ''1'', ''2'', ''3'', ''4'', ''5'', ''6'', ''7'', ''8'']
     \<subseteq> set (concat phone_keys) \<and>
   phone_var init_app = [] \<and>
   phone_var (fold phone_key
     [''5'', ''5'', ''5'', ''Back'', ''5'', ''1'', ''2'', ''3'', ''4'', ''5'', ''6'', ''7'', ''8''] init_app)
     = ''5551234567'' \<and>
   is_valid_phone (strip ''5551234567'') \<and>
   re_digit CHR ''8'' \<and>
   phone_var (phone_key ''8'' (init_app\<lparr>phone_var := ''5551234567''\<rparr>)) = ''5551234567''"
proof -
  have k: "set [''5'', ''5'', ''5'', ''Back'', ''5'', ''1'', ''2'', ''3'', ''4'', ''5'', ''6'', ''7'', ''8'']
     \<subseteq> set (concat phone_keys)"
    by (simp add: phone_keys_def)
  have e: "phone_var init_app = []" by (simp add: init_app_def)
  have f: "phone_var (fold phone_key
     [''5'', ''5'', ''5'', ''Back'', ''5'', ''1'', ''2'', ''3'', ''4'', ''5'', ''6'', ''7'', ''8''] init_app)
     = ''5551234567''"
    by (simp add: phone_key_def init_app_def isdigit_def py_isdigit_char_def re_digit_def)
  have d: "re_digit CHR ''8''" by (simp add: re_digit_def)
  from phone_keypad_field [OF k e, of "init_app\<lparr>phone_var := ''5551234567''\<rparr>"] k e f d
  show ?thesis by simp
qed

section \<open>The email pattern\<close>

lemma is_valid_email_iff:
  "is_valid_email e \<longleftrightarrow>
     (\<exists>u v c rest. e = u @ ''@'' @ v @ ''.'' @ c # rest \<and>
        u \<noteq> [] \<and> CHR ''@'' \<notin> set u \<and> v \<noteq> [] \<and> CHR ''@'' \<notin> set v \<and> c \<noteq> CHR ''@'')"
proof
  assume "is_valid_email e"
  then obtain p q where e: "e = p @ q" and p: "p \<in> lang email_rx"
    by (auto simp: is_valid_email_def re_match_iff)
  from p obtain u v w where p': "p = u @ CHR ''@'' # v @ CHR ''.'' # w"
    and uvw: "u \<noteq> []" "CHR ''@'' \<notin> set u" "v \<noteq> []" "CHR ''@'' \<notin> set v"
      "w \<noteq> []" "CHR ''@'' \<notin> set w"
    unfolding lang_email by blast
  from uvw obtain c w' where w: "w = c # w'" and c: "c \<noteq> CHR ''@''"
    by (cases w) auto
  have "e = u @ ''@'' @ v @ ''.'' @ c # (w' @ q)" by (simp add: e p' w)
  with uvw c show "\<exists>u v c rest. e = u @ ''@'' @ v @ ''.'' @ c # rest \<and>
        u \<noteq> [] \<and> CHR ''@'' \<notin> set u \<and> v \<noteq> [] \<and> CHR ''@'' \<notin> set v \<and> c \<noteq> CHR ''@''"
    by blast
next
  assume "\<exists>u v c rest. e = u @ ''@'' @ v @ ''.'' @ c # rest \<and>
        u \<noteq> [] \<and> CHR ''@'' \<notin> set u \<and> v \<noteq> [] \<and> CHR ''@'' \<notin> set v \<and> c \<noteq> CHR ''@''"
  then obtain u v c rest where e: "e = u @ ''@'' @ v @ ''.'' @ c # rest"
    and uv: "u \<noteq> []" "CHR ''@'' \<notin> set u" "v \<noteq> []" "CHR ''@'' \<notin> set v" "c \<noteq> CHR ''@''"
    by blast
  from uv have "u @ CHR ''@'' # v @ CHR ''.'' # [c] \<in> lang email_rx"
    unfolding lang_email by fastforce
  moreover have "e = (u @ CHR ''@'' # v @ CHR ''.'' # [c]) @ rest" by (simp add: e)
  ultimately show "is_valid_email e"
    unfolding is_valid_email_def re_match_iff by blast
qed

text \<open>
  Claim C9 as it is worded lets any character follow the dot. The string \<^verbatim>\<open>a@b.@\<close> is
  one non-at character, an at sign, one non-at character, a dot and one more
  character, and \<^verbatim>\<open>is_valid_email\<close> rejects it.
\<close>

theorem email_any_character_counterexample:
  "''a'' \<noteq> [] \<and> CHR ''@'' \<notin> set ''a'' \<and> ''b'' \<noteq> [] \<and> CHR ''@'' \<notin> set ''b'' \<and>
   \<not> is_valid_email (''a'' @ ''@'' @ ''b'' @ ''.'' @ CHR ''@'' # [])"
  by (simp add: is_valid_email_def email_rx_def OneOrMore_def)

text \<open>
  Claim C9, amended. \<^verbatim>\<open>is_valid_email\<close> is a prefix match: it accepts exactly the strings
  that begin with one or more non-at characters, an at sign, one or more non-at
  characters, a dot and one more character that is not an at sign; whatever follows
  is not looked at. The string \<^verbatim>\<open>a@b.c d@e\<close>, with a space and a second at sign after
  such a prefix, is accepted, and \<^verbatim>\<open>_email_next\<close> stores it unchanged as the recipient
  address. In general \<^verbatim>\<open>_email_next\<close> stores the stripped text of the field whenever that
  text is accepted.
\<close>

theorem email_prefix_match:
  "(is_valid_email e \<longleftrightarrow>
     (\<exists>u v c rest. e = u @ ''@'' @ v @ ''.'' @ c # rest \<and>
        u \<noteq> [] \<and> CHR ''@'' \<notin> set u \<and> v \<noteq> [] \<and> CHR ''@'' \<notin> set v \<and> c \<noteq> CHR ''@'')) \<and>
   is_valid_email ''a@b.c d@e'' \<and>
   email_next (init_app\<lparr>email_var := ''a@b.c d@e''\<rparr>)
     = init_app\<lparr>email_var := ''a@b.c d@e'', recipient_email := Some ''a@b.c d@e'',
                screen := PhoneScreen\<rparr> \<and>
   (is_valid_email (strip (email_var a)) \<longrightarrow>
      recipient_email (email_next a) = Some (strip (email_var a)) \<and>
      screen (email_next a) = PhoneScreen)"
proof -
  have 1: "is_valid_email ''a@b.c d@e''"
    by (simp add: is_valid_email_def email_rx_def OneOrMore_def)
  have 2: "strip ''a@b.c d@e'' = ''a@b.c d@e''"
    by (simp add: strip_def py_isspace_def)
  have 3: "email_next (init_app\<lparr>email_var := ''a@b.c d@e''\<rparr>)
     = init_app\<lparr>email_var := ''a@b.c d@e'', recipient_email := Some ''a@b.c d@e'',
                screen := PhoneScreen\<rparr>"
    using 1 by (simp add: email_next_def 2 show_phone_ui_def Let_def)
  have 4: "is_valid_email (strip (email_var a)) \<longrightarrow>
      recipient_email (email_next a) = Some (strip (email_var a)) \<and>
      screen (email_next a) = PhoneScreen"
    by (simp add: email_next_def Let_def show_phone_ui_def)
  from is_valid_email_iff [of e] 1 3 4 show ?thesis by blast
qed

text \<open>The theorem at the field text \<^verbatim>\<open>a@b.c@d\<close>.\<close>

theorem email_prefix_match_witness:
  "is_valid_email (strip (email_var (init_app\<lparr>email_var := ''a@b.c@d''\<rparr>))) \<and>
   recipient_email (email_next (init_app\<lparr>email_var := ''a@b.c@d''\<rparr>)) = Some ''a@b.c@d''"
proof -
  have s: "strip ''a@b.c@d'' = ''a@b.c@d''"
    by (simp add: strip_def py_isspace_def)
  have v: "is_valid_email (strip (email_var (init_app\<lparr>email_var := ''a@b.c@d''\<rparr>)))"
    by (simp add: s) (simp add: is_valid_email_def email_rx_def OneOrMore_def)
  from email_prefix_match [of "[]" "init_app\<lparr>email_var := ''a@b.c@d''\<rparr>"] v
  show ?thesis by (simp add: s)
qed

section \<open>Sessions keep the invariant\<close>

lemma run_conversion_fields:
  "run_conversion env a = (fx, a1, r) \<Longrightarrow>
     a1 = a \<or> (\<exists>p. a1 = a\<lparr>converted := Some p, conversion_done := True\<rparr>)"
  by (auto simp: run_conversion_def Let_def split: prod.splits sum.splits outcome.splits if_splits)

lemma launch_effects:
  "launch_resolve_headless env = (fx, r) \<Longrightarrow> fx = [] \<or> (\<exists>exe. fx = [SpawnProcess [exe, ''-nogui'']])"
  by (auto simp: launch_resolve_headless_def split: outcome.splits bool.splits sum.splits prod.splits if_splits)

lemma run_conversion_no_spawn:
  "SpawnThread w \<notin> set (fst (run_conversion env a))"
proof -
  obtain fx r where l: "launch_resolve_headless env = (fx, r)" by (cases "launch_resolve_headless env")
  from launch_effects [OF l] have "SpawnThread w \<notin> set fx" by auto
  with l show ?thesis
    by (auto simp: run_conversion_def Let_def split: sum.splits outcome.splits)
qed

lemma init_inv: "wizard_inv init_app"
  by (simp add: wizard_inv_def init_app_def)

lemma step_inv: "wizard_inv a \<Longrightarrow> wizard_inv (snd (step e a))"
proof (cases e)
  case (RenderThread env)
  obtain fx a1 r where rc: "run_conversion env a = (fx, a1, r)"
    by (cases "run_conversion env a") auto
  assume "wizard_inv a"
  with run_conversion_fields [OF rc] have "wizard_inv a1"
    by (auto simp: wizard_inv_def) 
  with rc RenderThread show ?thesis by simp
qed (auto simp: wizard_inv_def email_key_def email_next_def show_phone_ui_def phone_key_def
      phone_next_def show_rating_ui_def set_rating_def on_send_def Let_def)

lemma snd_run_Cons: "snd (run (e # es) a) = snd (run es (snd (step e a)))"
  by (simp add: split_beta)

lemma run_inv: "wizard_inv a \<Longrightarrow> wizard_inv (snd (run es a))"
proof (induction es arbitrary: a)
  case Nil
  then show ?case by simp
next
  case (Cons e es)
  from Cons.prems have "wizard_inv (snd (step e a))" by (rule step_inv)
  then have "wizard_inv (snd (run es (snd (step e a))))" by (rule Cons.IH)
  then show ?case by (simp only: snd_run_Cons)
qed

lemma spawn_upload_step:
  assumes "SpawnThread StartUpload \<in> set (fst (step e a))"
  shows "e = SendClick \<and> screen a = RatingScreen \<and> conversion_done a \<and> rating a \<noteq> 0"
proof (cases e)
  case (RenderThread env)
  with assms have "SpawnThread StartUpload \<in> set (fst (run_conversion env a))"
    by (simp split: prod.splits)
  with run_conversion_no_spawn show ?thesis by blast
next
  case SendClick
  with assms show ?thesis
    by (auto simp: on_send_def Let_def split: if_splits)
qed (use assms in \<open>auto simp: schedule_fake_progress_def update_upload_status_def Let_def split: if_splits\<close>)

text \<open>A sample session, used below: an address, a number, the render and five stars.\<close>

lemma strip_sample_email: "strip ''a@b.c'' = ''a@b.c''"
  by (simp add: strip_def py_isspace_def)

lemma valid_sample_email: "is_valid_email ''a@b.c''"
  by (simp add: is_valid_email_def email_rx_def OneOrMore_def)

lemma strip_sample_phone: "strip ''5551234567'' = ''5551234567''"
  by (simp add: strip_def py_isspace_def)

lemma valid_sample_phone: "is_valid_phone ''5551234567''"
  by (simp add: is_valid_phone_def phone_rx_def eval_nat_numeral re_digit_def)

lemma sample_session:
  "snd (run [EmailTyped ''a@b.c'', EmailNext, PhoneTyped ''5551234567'', PhoneNext,
         RenderThread \<lparr>resolve_running = Returns True, required_paths = ([], [], []),
                       path_exists = (\<lambda>p. True), is_file = (\<lambda>p. True),
                       popen_resolve = Returns (), headless_render = Returns ''out.mp4'',
                       secondary_loops = Returns ()\<rparr>,
         StarClick 4] init_app)
   = init_app\<lparr>email_var := ''a@b.c'', phone_var := ''5551234567'', conversion_done := True,
       rating := 5, recipient_email := Some ''a@b.c'',
       recipient_sms_numbers := [''5551234567@txt.att.net'', ''5551234567@vtext.com'',
          ''5551234567@tmomail.net'', ''5551234567@messaging.sprint.com''],
       converted := Some ''out.mp4'', screen := RatingScreen, send_btn_enabled := True\<rparr>"
  by (simp add: init_app_def email_next_def phone_next_def strip_sample_email valid_sample_email
      strip_sample_phone valid_sample_phone show_phone_ui_def show_rating_ui_def
      run_conversion_def launch_resolve_headless_def set_rating_def Let_def
      dict_values_def CARRIER_GATEWAYS_def)

section \<open>The upload waits for the render and the rating\<close>

text \<open>
  Claim C1. In the state \<open>a\<close> reached by any sequence of events from the initial state,
  the Send Clip button is enabled only if \<^verbatim>\<open>conversion_done\<close> is True and the rating is
  positive; whatever event comes next, the thread of \<^verbatim>\<open>_start_upload\<close> is started only if
  \<^verbatim>\<open>conversion_done\<close> is True and the rating is positive in \<open>a\<close>; and otherwise
  \<^verbatim>\<open>_on_send\<close> returns without any effect.
\<close>

theorem upload_needs_render_and_rating:
  assumes "run es init_app = (fx, a)"
  shows "(send_btn_enabled a \<longrightarrow> conversion_done a \<and> 0 < rating a) \<and>
         (\<forall>e. SpawnThread StartUpload \<in> set (fst (step e a)) \<longrightarrow>
               conversion_done a \<and> 0 < rating a) \<and>
         (\<not> (conversion_done a \<and> 0 < rating a) \<longrightarrow> on_send a = ([], a))"
proof -
  from run_inv [OF init_inv, of es] assms have inv: "wizard_inv a" by simp
  then have r: "0 \<le> rating a" and b: "send_btn_enabled a \<longrightarrow> conversion_done a \<and> 0 < rating a"
    by (simp_all add: wizard_inv_def)
  have s: "\<forall>e. SpawnThread StartUpload \<in> set (fst (step e a)) \<longrightarrow>
               conversion_done a \<and> 0 < rating a"
    using spawn_upload_step [of _ a] r by fastforce
  have g: "\<not> (conversion_done a \<and> 0 < rating a) \<longrightarrow> on_send a = ([], a)"
    using r by (auto simp: on_send_def)
  from b s g show ?thesis by blast
qed

text \<open>
  The theorem at the sample session, where Send Clip starts the upload, and at the
  initial state, where \<^verbatim>\<open>_on_send\<close> does nothing.
\<close>

theorem upload_needs_render_and_rating_witness:
  "SpawnThread StartUpload
     \<in> set (fst (step SendClick
         (snd (run [EmailTyped ''a@b.c'', EmailNext, PhoneTyped ''5551234567'', PhoneNext,
         RenderThread \<lparr>resolve_running = Returns True, required_paths = ([], [], []),
                       path_exists = (\<lambda>p. True), is_file = (\<lambda>p. True),
                       popen_resolve = Returns (), headless_render = Returns ''out.mp4'',
                       secondary_loops = Returns ()\<rparr>,
         StarClick 4] init_app)))) \<and>
   conversion_done
         (snd (run [EmailTyped ''a@b.c'', EmailNext, PhoneTyped ''5551234567'', PhoneNext,
         RenderThread \<lparr>resolve_running = Returns True, required_paths = ([], [], []),
                       path_exists = (\<lambda>p. True), is_file = (\<lambda>p. True),
                       popen_resolve = Returns (), headless_render = Returns ''out.mp4'',
                       secondary_loops = Returns ()\<rparr>,
         StarClick 4] init_app)) \<and>
   0 < rating
         (snd (run [EmailTyped ''a@b.c'', EmailNext, PhoneTyped ''5551234567'', PhoneNext,
         RenderThread \<lparr>resolve_running = Returns True, required_paths = ([], [], []),
                       path_exists = (\<lambda>p. True), is_file = (\<lambda>p. True),
                       popen_resolve = Returns (), headless_render = Returns ''out.mp4'',
                       secondary_loops = Returns ()\<rparr>,
         StarClick 4] init_app)) \<and>
   \<not> (conversion_done init_app \<and> 0 < rating init_app) \<and>
   on_send init_app = ([], init_app)"
proof -
  let ?es = "[EmailTyped ''a@b.c'', EmailNext, PhoneTyped ''5551234567'', PhoneNext,
         RenderThread \<lparr>resolve_running = Returns True, required_paths = ([], [], []),
                       path_exists = (\<lambda>p. True), is_file = (\<lambda>p. True),
                       popen_resolve = Returns (), headless_render = Returns ''out.mp4'',
                       secondary_loops = Returns ()\<rparr>,
         StarClick 4]"
  have r: "run ?es init_app = (fst (run ?es init_app), snd (run ?es init_app))" by simp
  have s: "SpawnThread StartUpload \<in> set (fst (step SendClick (snd (run ?es init_app))))"
    unfolding sample_session by (simp add: init_app_def on_send_def Let_def)
  have r0: "run [] init_app = ([], init_app)" by simp
  have n: "\<not> (conversion_done init_app \<and> 0 < rating init_app)" by (simp add: init_app_def)
  from upload_needs_render_and_rating [OF r] upload_needs_render_and_rating [OF r0] s n
  show ?thesis by blast
qed

section \<open>The wizard is linear\<close>

text \<open>
  Claim C6. In the state \<open>a\<close> reached by any sequence of events from the initial email
  screen: on every later screen \<^verbatim>\<open>recipient_email\<close> holds a string that passes
  \<^verbatim>\<open>is_valid_email\<close>; from the rating screen on \<^verbatim>\<open>recipient_sms_numbers\<close> holds the gateway
  addresses of a string that passes \<^verbatim>\<open>is_valid_phone\<close>; an event either keeps the screen
  or moves from email to phone, from phone to rating or from rating to upload; the
  upload is started from the rating screen only; and a Next whose field fails its
  validation changes nothing.
\<close>

theorem wizard_is_linear:
  assumes "run es init_app = (fx, a)"
  shows "(screen a \<noteq> EmailScreen \<longrightarrow> (\<exists>e. recipient_email a = Some e \<and> is_valid_email e)) \<and>
         (screen a = RatingScreen \<or> screen a = UploadScreen \<longrightarrow>
            (\<exists>p. is_valid_phone p \<and>
                 recipient_sms_numbers a = map (\<lambda>gw. p @ gw) (dict_values CARRIER_GATEWAYS))) \<and>
         (\<forall>e. screen (snd (step e a)) = screen a \<or>
              (screen a, screen (snd (step e a)))
                \<in> {(EmailScreen, PhoneScreen), (PhoneScreen, RatingScreen),
                    (RatingScreen, UploadScreen)}) \<and>
         (\<forall>e. SpawnThread StartUpload \<in> set (fst (step e a)) \<longrightarrow> screen a = RatingScreen) \<and>
         (\<not> is_valid_email (strip (email_var a)) \<longrightarrow> step EmailNext a = ([], a)) \<and>
         (\<not> is_valid_phone (strip (phone_var a)) \<longrightarrow> step PhoneNext a = ([], a))"
proof -
  from run_inv [OF init_inv, of es] assms have inv: "wizard_inv a" by simp
  have t: "screen (snd (step e a)) = screen a \<or>
              (screen a, screen (snd (step e a)))
                \<in> {(EmailScreen, PhoneScreen), (PhoneScreen, RatingScreen),
                    (RatingScreen, UploadScreen)}" for e
  proof (cases e)
    case (RenderThread env)
    obtain fx1 a1 r where rc: "run_conversion env a = (fx1, a1, r)"
      by (cases "run_conversion env a") auto
    from run_conversion_fields [OF rc] have "screen a1 = screen a" by auto
    with rc RenderThread show ?thesis by simp
  qed (auto simp: email_key_def email_next_def show_phone_ui_def phone_key_def
      phone_next_def show_rating_ui_def set_rating_def on_send_def Let_def)
  have s: "\<forall>e. SpawnThread StartUpload \<in> set (fst (step e a)) \<longrightarrow> screen a = RatingScreen"
    using spawn_upload_step [of _ a] by blast
  have v: "(\<not> is_valid_email (strip (email_var a)) \<longrightarrow> step EmailNext a = ([], a)) \<and>
         (\<not> is_valid_phone (strip (phone_var a)) \<longrightarrow> step PhoneNext a = ([], a))"
    by (simp add: email_next_def phone_next_def)
  from inv t s v show ?thesis unfolding wizard_inv_def by blast
qed

text \<open>
  The theorem at the sample session, at the initial state, whose empty email field
  fails, and after an accepted address, where the empty phone field fails.
\<close>

theorem wizard_is_linear_witness:
  "screen (snd (run [EmailTyped ''a@b.c'', EmailNext, PhoneTyped ''5551234567'', PhoneNext,
         RenderThread \<lparr>resolve_running = Returns True, required_paths = ([], [], []),
                       path_exists = (\<lambda>p. True), is_file = (\<lambda>p. True),
                       popen_resolve = Returns (), headless_render = Returns ''out.mp4'',
                       secondary_loops = Returns ()\<rparr>,
         StarClick 4] init_app)) = RatingScreen \<and>
   (\<exists>e. recipient_email (snd (run [EmailTyped ''a@b.c'', EmailNext, PhoneTyped ''5551234567'',
         PhoneNext,
         RenderThread \<lparr>resolve_running = Returns True, required_paths = ([], [], []),
                       path_exists = (\<lambda>p. True), is_file = (\<lambda>p. True),
                       popen_resolve = Returns (), headless_render = Returns ''out.mp4'',
                       secondary_loops = Returns ()\<rparr>,
         StarClick 4] init_app)) = Some e \<and> is_valid_email e) \<and>
   SpawnThread StartUpload
     \<in> set (fst (step SendClick
         (snd (run [EmailTyped ''a@b.c'', EmailNext, PhoneTyped ''5551234567'', PhoneNext,
         RenderThread \<lparr>resolve_running = Returns True, required_paths = ([], [], []),
                       path_exists = (\<lambda>p. True), is_file = (\<lambda>p. True),
                       popen_resolve = Returns (), headless_render = Returns ''out.mp4'',
                       secondary_loops = Returns ()\<rparr>,
         StarClick 4] init_app)))) \<and>
   \<not> is_valid_email (strip (email_var init_app)) \<and>
   step EmailNext init_app = ([], init_app) \<and>
   \<not> is_valid_phone (strip (phone_var (snd (run [EmailTyped ''a@b.c'', EmailNext] init_app)))) \<and>
   step PhoneNext (snd (run [EmailTyped ''a@b.c'', EmailNext] init_app))
     = ([], snd (run [EmailTyped ''a@b.c'', EmailNext] init_app))"
proof -
  let ?es = "[EmailTyped ''a@b.c'', EmailNext, PhoneTyped ''5551234567'', PhoneNext,
         RenderThread \<lparr>resolve_running = Returns True, required_paths = ([], [], []),
                       path_exists = (\<lambda>p. True), is_file = (\<lambda>p. True),
                       popen_resolve = Returns (), headless_render = Returns ''out.mp4'',
                       secondary_loops = Returns ()\<rparr>,
         StarClick 4]"
  let ?es1 = "[EmailTyped ''a@b.c'', EmailNext]"
  have r: "run ?es init_app = (fst (run ?es init_app), snd (run ?es init_app))" by simp
  have r0: "run [] init_app = ([], init_app)" by simp
  have r1: "run ?es1 init_app = (fst (run ?es1 init_app), snd (run ?es1 init_app))" by simp
  have sc: "screen (snd (run ?es init_app)) = RatingScreen"
    unfolding sample_session by simp
  have s: "SpawnThread StartUpload \<in> set (fst (step SendClick (snd (run ?es init_app))))"
    unfolding sample_session by (simp add: init_app_def on_send_def Let_def)
  have ne: "\<not> is_valid_email (strip (email_var init_app))"
    by (simp add: init_app_def strip_def is_valid_email_def email_rx_def OneOrMore_def)
  have p1: "phone_var (snd (run ?es1 init_app)) = []"
    by (simp add: init_app_def email_next_def strip_sample_email valid_sample_email
        show_phone_ui_def Let_def)
  have np: "\<not> is_valid_phone (strip (phone_var (snd (run ?es1 init_app))))"
    unfolding p1 by (simp add: strip_def is_valid_phone_def phone_rx_def eval_nat_numeral)
  from wizard_is_linear [OF r] wizard_is_linear [OF r0] wizard_is_linear [OF r1] sc s ne np
  show ?thesis by (simp only: simp_thms) blast
qed

section \<open>The chunk loop\<close>

lemma note_resp_fid: "snd (snd (note_resp resp a)) = file_id (Returns (status, resp))"
  by (simp add: note_resp_def file_id_def Let_def split: option.splits)

lemma chunk_loop_raise:
  assumes "next_chunk env (Suc n) = Raises e" and "is_Exception e"
  shows "chunk_loop env n fx a =
           chunk_loop env (Suc n)
             (fx @ [Print (DbgRequestingChunk (Suc n)), Print (DbgChunkException e), Sleep 1]) a"
  using assms by (subst chunk_loop.simps) (simp add: Let_def)

lemma chunk_loop_no_id:
  assumes "next_chunk env (Suc n) = Returns (status, resp)"
    and "file_id (Returns (status, resp)) = None"
  shows "chunk_loop env n fx a =
           chunk_loop env (Suc n)
             (fx @ [Print (DbgRequestingChunk (Suc n))]
                 @ fst (note_status (remaining env (Suc n)) status a)
                 @ fst (note_resp resp (snd (note_status (remaining env (Suc n)) status a))))
             (fst (snd (note_resp resp (snd (note_status (remaining env (Suc n)) status a)))))"
  using assms note_resp_fid [of resp "snd (note_status (remaining env (Suc n)) status a)" status]
  by (subst chunk_loop.simps) (simp add: Let_def split_beta)

lemma chunk_loop_id:
  assumes "next_chunk env (Suc n) = Returns (status, resp)"
    and "file_id (Returns (status, resp)) = Some fid"
  shows "chunk_loop env n fx a =
           Some (fx @ [Print (DbgRequestingChunk (Suc n))]
                 @ fst (note_status (remaining env (Suc n)) status a)
                 @ fst (note_resp resp (snd (note_status (remaining env (Suc n)) status a))),
             fst (snd (note_resp resp (snd (note_status (remaining env (Suc n)) status a)))),
             Inr fid)"
  using assms note_resp_fid [of resp "snd (note_status (remaining env (Suc n)) status a)" status]
  by (subst chunk_loop.simps) (simp add: Let_def split_beta)

lemma loop_body_cases:
  fixes loop :: "upload_env \<Rightarrow> nat \<Rightarrow> effect list \<Rightarrow> app \<Rightarrow> (effect list \<times> app \<times> (exn + string)) option"
  assumes body: "(let attempt1 = n + 1;
          fx1 = fx @ [Print (DbgRequestingChunk attempt1)]
      in case next_chunk env attempt1 of
           Raises e \<Rightarrow>
             if is_Exception e
             then loop env attempt1 (fx1 @ [Print (DbgChunkException e), Sleep 1]) a
             else Some (fx1, a, Inl e)
         | Returns (status, resp) \<Rightarrow>
             (case note_status (remaining env attempt1) status a of (fx2, a2) \<Rightarrow>
              case note_resp resp a2 of (fx3, a3, fid) \<Rightarrow>
                (case fid of
                   None \<Rightarrow> loop env attempt1 (fx1 @ fx2 @ fx3) a3
                 | Some f \<Rightarrow> Some (fx1 @ fx2 @ fx3, a3, Inr f)))) = Some y"
  shows "(\<exists>fx1 a1. loop env (Suc n) fx1 a1 = Some y \<and> file_id (next_chunk env (Suc n)) = None
            \<and> caught (next_chunk env (Suc n))) \<or>
         (\<exists>fx1 a1 e. y = (fx1, a1, Inl e) \<and> \<not> caught (next_chunk env (Suc n))) \<or>
         (\<exists>fx1 a1 f. y = (fx1, a1, Inr f) \<and> file_id (next_chunk env (Suc n)) = Some f)"
proof -
  from body have step: "(case next_chunk env (Suc n) of
           Raises e \<Rightarrow>
             if is_Exception e
             then loop env (Suc n) ((fx @ [Print (DbgRequestingChunk (Suc n))]) @ [Print (DbgChunkException e), Sleep 1]) a
             else Some (fx @ [Print (DbgRequestingChunk (Suc n))], a, Inl e)
         | Returns (status, resp) \<Rightarrow>
             (case note_status (remaining env (Suc n)) status a of (fx2, a2) \<Rightarrow>
              case note_resp resp a2 of (fx3, a3, fid) \<Rightarrow>
                (case fid of
                   None \<Rightarrow> loop env (Suc n) ((fx @ [Print (DbgRequestingChunk (Suc n))]) @ fx2 @ fx3) a3
                 | Some f \<Rightarrow> Some ((fx @ [Print (DbgRequestingChunk (Suc n))]) @ fx2 @ fx3, a3, Inr f)))) = Some y"
    unfolding Let_def by (simp only: Suc_eq_plus1)
  show ?thesis
  proof (cases "next_chunk env (Suc n)")
    case (Raises e)
    show ?thesis
    proof (cases "is_Exception e")
      case True
      from step have "loop env (Suc n) ((fx @ [Print (DbgRequestingChunk (Suc n))])
            @ [Print (DbgChunkException e), Sleep 1]) a = Some y"
        unfolding Raises outcome.case using True by simp
      moreover from Raises True have "file_id (next_chunk env (Suc n)) = None"
        "caught (next_chunk env (Suc n))" by (simp_all add: file_id_def caught_def)
      ultimately show ?thesis by blast
    next
      case False
      from step have "y = (fx @ [Print (DbgRequestingChunk (Suc n))], a, Inl e)"
        unfolding Raises outcome.case using False by simp
      moreover from Raises False have "\<not> caught (next_chunk env (Suc n))"
        by (simp add: caught_def)
      ultimately show ?thesis by blast
    qed
  next
    case (Returns c)
    obtain status resp where c: "c = (status, resp)" by (cases c)
    obtain fx2 a2 where ns: "note_status (remaining env (Suc n)) status a = (fx2, a2)"
      by (cases "note_status (remaining env (Suc n)) status a")
    obtain fx3 a3 fid where nr: "note_resp resp a2 = (fx3, a3, fid)"
      by (cases "note_resp resp a2") auto
    from note_resp_fid [of resp a2 status] nr have fid: "file_id (Returns (status, resp)) = fid"
      by simp
    from step have s2: "(case fid of
                   None \<Rightarrow> loop env (Suc n) ((fx @ [Print (DbgRequestingChunk (Suc n))]) @ fx2 @ fx3) a3
                 | Some f \<Rightarrow> Some ((fx @ [Print (DbgRequestingChunk (Suc n))]) @ fx2 @ fx3, a3, Inr f)) = Some y"
      unfolding Returns c outcome.case prod.case ns nr .
    have cg: "caught (next_chunk env (Suc n))" using Returns by (simp add: caught_def)
    show ?thesis
    proof (cases fid)
      case None
      with s2 have "loop env (Suc n) ((fx @ [Print (DbgRequestingChunk (Suc n))]) @ fx2 @ fx3) a3 = Some y"
        by simp
      with None fid Returns c cg show ?thesis by auto
    next
      case (Some f)
      with s2 have "y = ((fx @ [Print (DbgRequestingChunk (Suc n))]) @ fx2 @ fx3, a3, Inr f)"
        by simp
      with Some fid Returns c show ?thesis by auto
    qed
  qed
qed

lemma chunk_loop_stops:
  assumes "chunk_loop env n fx a = Some y"
  shows "\<exists>m>n. file_id (next_chunk env m) \<noteq> None \<or> \<not> caught (next_chunk env m)"
proof (rule chunk_loop.raw_induct
    [where P = "\<lambda>env n fx a y. \<exists>m>n. file_id (next_chunk env m) \<noteq> None \<or> \<not> caught (next_chunk env m)",
     OF _ assms])
  fix loop :: "upload_env \<Rightarrow> nat \<Rightarrow> effect list \<Rightarrow> app \<Rightarrow> (effect list \<times> app \<times> (exn + string)) option"
  fix env n fx a y
  assume ih: "\<And>env n fx a y. loop env n fx a = Some y \<Longrightarrow>
      \<exists>m>n. file_id (next_chunk env m) \<noteq> None \<or> \<not> caught (next_chunk env m)"
  assume body: "(let attempt1 = n + 1;
          fx1 = fx @ [Print (DbgRequestingChunk attempt1)]
      in case next_chunk env attempt1 of
           Raises e \<Rightarrow>
             if is_Exception e
             then loop env attempt1 (fx1 @ [Print (DbgChunkException e), Sleep 1]) a
             else Some (fx1, a, Inl e)
         | Returns (status, resp) \<Rightarrow>
             (case note_status (remaining env attempt1) status a of (fx2, a2) \<Rightarrow>
              case note_resp resp a2 of (fx3, a3, fid) \<Rightarrow>
                (case fid of
                   None \<Rightarrow> loop env attempt1 (fx1 @ fx2 @ fx3) a3
                 | Some f \<Rightarrow> Some (fx1 @ fx2 @ fx3, a3, Inr f)))) = Some y"
  from loop_body_cases [where loop = loop and env = env and n = n and fx = fx and a = a and y = y, OF body]
  consider fx1 a1 where "loop env (Suc n) fx1 a1 = Some y"
    | "\<not> caught (next_chunk env (Suc n))"
    | "file_id (next_chunk env (Suc n)) \<noteq> None"
    by auto
  then show "\<exists>m>n. file_id (next_chunk env m) \<noteq> None \<or> \<not> caught (next_chunk env m)"
  proof cases
    case 1
    from ih [OF 1] obtain m where "Suc n < m"
      and "file_id (next_chunk env m) \<noteq> None \<or> \<not> caught (next_chunk env m)" by blast
    moreover from \<open>Suc n < m\<close> have "n < m" by simp
    ultimately show ?thesis by blast
  next
    case 2
    then show ?thesis by blast
  next
    case 3
    then show ?thesis by blast
  qed
qed

lemma chunk_loop_file_id:
  assumes "chunk_loop env n fx a = Some y"
  shows "y = (fx', a', Inr fid) \<longrightarrow> (\<exists>m>n. file_id (next_chunk env m) = Some fid)"
proof (rule chunk_loop.raw_induct
    [where P = "\<lambda>env n fx a y. y = (fx', a', Inr fid) \<longrightarrow> (\<exists>m>n. file_id (next_chunk env m) = Some fid)",
     OF _ assms])
  fix loop :: "upload_env \<Rightarrow> nat \<Rightarrow> effect list \<Rightarrow> app \<Rightarrow> (effect list \<times> app \<times> (exn + string)) option"
  fix env n fx a y
  assume ih: "\<And>env n fx a y. loop env n fx a = Some y \<Longrightarrow>
      y = (fx', a', Inr fid) \<longrightarrow> (\<exists>m>n. file_id (next_chunk env m) = Some fid)"
  assume body: "(let attempt1 = n + 1;
          fx1 = fx @ [Print (DbgRequestingChunk attempt1)]
      in case next_chunk env attempt1 of
           Raises e \<Rightarrow>
             if is_Exception e
             then loop env attempt1 (fx1 @ [Print (DbgChunkException e), Sleep 1]) a
             else Some (fx1, a, Inl e)
         | Returns (status, resp) \<Rightarrow>
             (case note_status (remaining env attempt1) status a of (fx2, a2) \<Rightarrow>
              case note_resp resp a2 of (fx3, a3, fid) \<Rightarrow>
                (case fid of
                   None \<Rightarrow> loop env attempt1 (fx1 @ fx2 @ fx3) a3
                 | Some f \<Rightarrow> Some (fx1 @ fx2 @ fx3, a3, Inr f)))) = Some y"
  show "y = (fx', a', Inr fid) \<longrightarrow> (\<exists>m>n. file_id (next_chunk env m) = Some fid)"
  proof
    assume y: "y = (fx', a', Inr fid)"
    from loop_body_cases [where loop = loop and env = env and n = n and fx = fx and a = a and y = y, OF body] y
    consider fx1 a1 where "loop env (Suc n) fx1 a1 = Some y"
      | "file_id (next_chunk env (Suc n)) = Some fid"
      by auto
    then show "\<exists>m>n. file_id (next_chunk env m) = Some fid"
    proof cases
      case 1
      from ih [OF 1] y obtain m where "Suc n < m"
        and "file_id (next_chunk env m) = Some fid" by blast
      moreover from \<open>Suc n < m\<close> have "n < m" by simp
      ultimately show ?thesis by blast
    next
      case 2
      then show ?thesis by blast
    qed
  qed
qed

lemma chunk_loop_forever:
  assumes "\<forall>m>n. file_id (next_chunk env m) = None \<and> caught (next_chunk env m)"
  shows "chunk_loop env n fx a = None"
proof (rule ccontr)
  assume "chunk_loop env n fx a \<noteq> None"
  then obtain y where y: "chunk_loop env n fx a = Some y" by (auto simp only: not_None_eq)
  have "\<exists>m>n. file_id (next_chunk env m) \<noteq> None \<or> \<not> caught (next_chunk env m)"
    using y by (rule chunk_loop_stops)
  then obtain m where "n < m"
    and "file_id (next_chunk env m) \<noteq> None \<or> \<not> caught (next_chunk env m)" by blast
  moreover from assms \<open>n < m\<close> have "file_id (next_chunk env m) = None \<and> caught (next_chunk env m)"
    by (simp only:)
  ultimately show False by (simp only: simp_thms)
qed

lemma after_attempt_raise:
  "next_chunk env k = Raises e \<Longrightarrow>
     after_attempt env k (fx, a)
       = (fx @ [Print (DbgRequestingChunk k), Print (DbgChunkException e), Sleep 1], a)"
  by (simp add: after_attempt_def)

lemma after_attempt_return:
  "next_chunk env k = Returns (status, resp) \<Longrightarrow>
     after_attempt env k (fx, a)
       = (fx @ [Print (DbgRequestingChunk k)]
             @ fst (note_status (remaining env k) status a)
             @ fst (note_resp resp (snd (note_status (remaining env k) status a))),
          fst (snd (note_resp resp (snd (note_status (remaining env k) status a)))))"
  by (simp add: after_attempt_def split_beta)

lemma chunk_loop_goes_on:
  assumes "file_id (next_chunk env (Suc n)) = None" and "caught (next_chunk env (Suc n))"
  shows "chunk_loop env n fx a =
           chunk_loop env (Suc n) (fst (after_attempt env (Suc n) (fx, a)))
             (snd (after_attempt env (Suc n) (fx, a)))"
proof (cases "next_chunk env (Suc n)")
  case (Raises e)
  with assms(2) have e: "is_Exception e" by (simp add: caught_def)
  have "chunk_loop env n fx a =
      chunk_loop env (Suc n)
        (fx @ [Print (DbgRequestingChunk (Suc n)), Print (DbgChunkException e), Sleep 1]) a"
    using Raises e by (rule chunk_loop_raise)
  then show ?thesis by (simp only: after_attempt_raise [OF Raises] fst_conv snd_conv)
next
  case (Returns c)
  obtain status resp where c: "c = (status, resp)" by (cases c)
  from Returns c have r: "next_chunk env (Suc n) = Returns (status, resp)" by simp
  from assms(1) r have f: "file_id (Returns (status, resp)) = None" by simp
  from chunk_loop_no_id [OF r f, of fx a]
  show ?thesis by (simp only: after_attempt_return [OF r] fst_conv snd_conv)
qed

lemma chunk_loop_ends:
  assumes "file_id (next_chunk env (Suc n)) = Some fid"
  shows "chunk_loop env n fx a =
           Some (fst (after_attempt env (Suc n) (fx, a)),
                 snd (after_attempt env (Suc n) (fx, a)), Inr fid)"
proof -
  from assms obtain status resp where r: "next_chunk env (Suc n) = Returns (status, resp)"
    by (cases "next_chunk env (Suc n)") (auto simp: file_id_def)
  from assms r have f: "file_id (Returns (status, resp)) = Some fid" by simp
  from chunk_loop_id [OF r f, of fx a]
  show ?thesis by (simp only: after_attempt_return [OF r] fst_conv snd_conv)
qed

lemma chunk_loop_trace:
  "file_id (next_chunk env (n + Suc d)) = Some fid \<Longrightarrow>
   (\<forall>k. n < k \<and> k < n + Suc d \<longrightarrow> file_id (next_chunk env k) = None \<and> caught (next_chunk env k)) \<Longrightarrow>
   chunk_loop env n fx a =
     Some (fst (fold (after_attempt env) [Suc n ..< Suc (n + Suc d)] (fx, a)),
           snd (fold (after_attempt env) [Suc n ..< Suc (n + Suc d)] (fx, a)), Inr fid)"
proof (induction d arbitrary: n fx a)
  case 0
  from "0.prems"(1) have f: "file_id (next_chunk env (Suc n)) = Some fid" by simp
  have u: "[Suc n ..< Suc (n + Suc 0)] = [Suc n]" by simp
  from chunk_loop_ends [OF f, of fx a] show ?case by (simp only: u fold_simps)
next
  case (Suc d)
  have "n < Suc n \<and> Suc n < n + Suc (Suc d)" by arith
  with Suc.prems(2) have k: "file_id (next_chunk env (Suc n)) = None"
    and c: "caught (next_chunk env (Suc n))" by blast+
  have p1: "file_id (next_chunk env (Suc n + Suc d)) = Some fid"
    using Suc.prems(1) by (simp only: add_Suc_right add_Suc)
  have p2: "\<forall>k. Suc n < k \<and> k < Suc n + Suc d \<longrightarrow>
      file_id (next_chunk env k) = None \<and> caught (next_chunk env k)"
  proof (intro allI impI)
    fix k assume "Suc n < k \<and> k < Suc n + Suc d"
    then have "n < k \<and> k < n + Suc (Suc d)" by arith
    with Suc.prems(2) show "file_id (next_chunk env k) = None \<and> caught (next_chunk env k)"
      by blast
  qed
  obtain fx1 a1 where s: "after_attempt env (Suc n) (fx, a) = (fx1, a1)"
    by (cases "after_attempt env (Suc n) (fx, a)")
  have ih: "chunk_loop env (Suc n) fx1 a1 =
     Some (fst (fold (after_attempt env) [Suc (Suc n) ..< Suc (Suc n + Suc d)] (fx1, a1)),
           snd (fold (after_attempt env) [Suc (Suc n) ..< Suc (Suc n + Suc d)] (fx1, a1)), Inr fid)"
    using p1 p2 by (rule Suc.IH)
  have u: "[Suc n ..< Suc (n + Suc (Suc d))] = Suc n # [Suc (Suc n) ..< Suc (Suc n + Suc d)]"
    by (simp add: upt_conv_Cons)
  have "chunk_loop env n fx a = chunk_loop env (Suc n) fx1 a1"
    using chunk_loop_goes_on [OF k c, of fx a] by (simp only: s fst_conv snd_conv)
  also note ih
  finally show ?case by (simp only: u fold_simps s)
qed

lemma chunk_loop_retries:
  "(\<forall>k. n < k \<and> k \<le> n + d \<longrightarrow> next_chunk env k = Raises (ex k) \<and> is_Exception (ex k)) \<Longrightarrow>
   next_chunk env (Suc (n + d)) = Returns (status, resp) \<Longrightarrow>
   file_id (Returns (status, resp)) = Some fid \<Longrightarrow>
   chunk_loop env n fx a =
     Some (fx @ concat (map (\<lambda>k. [Print (DbgRequestingChunk k),
                                   Print (DbgChunkException (ex k)), Sleep 1])
                          [Suc n ..< Suc (n + d)])
              @ [Print (DbgRequestingChunk (Suc (n + d)))]
              @ fst (note_status (remaining env (Suc (n + d))) status a)
              @ fst (note_resp resp (snd (note_status (remaining env (Suc (n + d))) status a))),
           fst (snd (note_resp resp (snd (note_status (remaining env (Suc (n + d))) status a)))),
           Inr fid)"
proof (induction d arbitrary: n fx)
  case 0
  from "0.prems"(2) have r: "next_chunk env (Suc n) = Returns (status, resp)" by simp
  from chunk_loop_id [OF r "0.prems"(3), of fx a] show ?case by simp
next
  case (Suc d)
  have "n < Suc n \<and> Suc n \<le> n + Suc d" by arith
  with Suc.prems(1) have r: "next_chunk env (Suc n) = Raises (ex (Suc n))"
    and e: "is_Exception (ex (Suc n))" by blast+
  have p1: "\<forall>k. Suc n < k \<and> k \<le> Suc n + d \<longrightarrow>
      next_chunk env k = Raises (ex k) \<and> is_Exception (ex k)"
  proof (intro allI impI)
    fix k assume "Suc n < k \<and> k \<le> Suc n + d"
    then have "n < k \<and> k \<le> n + Suc d" by arith
    with Suc.prems(1) show "next_chunk env k = Raises (ex k) \<and> is_Exception (ex k)" by blast
  qed
  have p2: "next_chunk env (Suc (Suc n + d)) = Returns (status, resp)"
    using Suc.prems(2) by (simp only: add_Suc_right add_Suc)
  note ih = Suc.IH [OF p1 p2 Suc.prems(3),
      of "fx @ [Print (DbgRequestingChunk (Suc n)), Print (DbgChunkException (ex (Suc n))), Sleep 1]"]
  have u: "[Suc n ..< Suc (Suc (n + d))] = Suc n # [Suc (Suc n) ..< Suc (Suc (n + d))]"
    by (simp add: upt_conv_Cons)
  have "chunk_loop env n fx a = chunk_loop env (Suc n)
      (fx @ [Print (DbgRequestingChunk (Suc n)), Print (DbgChunkException (ex (Suc n))), Sleep 1]) a"
    using r e by (rule chunk_loop_raise)
  also note ih
  finally have f: "chunk_loop env n fx a =
     Some ((fx @ [Print (DbgRequestingChunk (Suc n)), Print (DbgChunkException (ex (Suc n))),
                  Sleep 1])
              @ concat (map (\<lambda>k. [Print (DbgRequestingChunk k),
                                   Print (DbgChunkException (ex k)), Sleep 1])
                          [Suc (Suc n) ..< Suc (Suc n + d)])
              @ [Print (DbgRequestingChunk (Suc (Suc n + d)))]
              @ fst (note_status (remaining env (Suc (Suc n + d))) status a)
              @ fst (note_resp resp (snd (note_status (remaining env (Suc (Suc n + d))) status a))),
           fst (snd (note_resp resp (snd (note_status (remaining env (Suc (Suc n + d))) status a)))),
           Inr fid)" .
  show ?case
    unfolding add_Suc_right add_Suc u
    using f [unfolded add_Suc_right add_Suc]
    by (simp only: list.map concat.simps append_assoc append_Cons append_Nil)
qed

text \<open>
  Claim C3. The chunk loop of \<^verbatim>\<open>_start_upload\<close>, entered after \<open>n\<close> attempts. When the next
  call of \<^verbatim>\<open>next_chunk\<close> raises an instance of \<^verbatim>\<open>Exception\<close>, the loop prints the exception,
  sleeps one second and goes on with the next attempt. When the loop ends with a file
  ID, some later call returned a response carrying that ID. When no later call ever
  carries a file ID, every raise being caught, the loop never ends, however many
  attempts are made. When some later call carries a file ID, the calls before it
  being caught, the loop ends with that ID, and the trace and the fields it returns
  are those the attempts leave one after the other, an attempt that raises leaving
  its request line, its exception line and a sleep of one second. In particular,
  when \<open>d\<close> calls in a row raise and the next one returns a file ID, the returned trace
  is the trace so far, then for each failed call its request line, its exception
  line and a sleep of one second, then the lines of the call that succeeded.
\<close>

theorem upload_retry_policy:
  "(\<forall>e. next_chunk env (Suc n) = Raises e \<and> is_Exception e \<longrightarrow>
       chunk_loop env n fx a =
         chunk_loop env (Suc n)
           (fx @ [Print (DbgRequestingChunk (Suc n)), Print (DbgChunkException e), Sleep 1]) a) \<and>
   (\<forall>fx' a' fid. chunk_loop env n fx a = Some (fx', a', Inr fid) \<longrightarrow>
       (\<exists>m>n. file_id (next_chunk env m) = Some fid)) \<and>
   ((\<forall>m>n. file_id (next_chunk env m) = None \<and> caught (next_chunk env m)) \<longrightarrow>
       chunk_loop env n fx a = None) \<and>
   (\<forall>d fid. file_id (next_chunk env (n + Suc d)) = Some fid \<and>
       (\<forall>k. n < k \<and> k < n + Suc d \<longrightarrow>
            file_id (next_chunk env k) = None \<and> caught (next_chunk env k)) \<longrightarrow>
       chunk_loop env n fx a =
         Some (fst (fold (after_attempt env) [Suc n ..< Suc (n + Suc d)] (fx, a)),
               snd (fold (after_attempt env) [Suc n ..< Suc (n + Suc d)] (fx, a)), Inr fid)) \<and>
   (\<forall>k e gx b. next_chunk env k = Raises e \<longrightarrow>
       after_attempt env k (gx, b)
         = (gx @ [Print (DbgRequestingChunk k), Print (DbgChunkException e), Sleep 1], b)) \<and>
   (\<forall>d ex status resp fid.
      (\<forall>k. n < k \<and> k \<le> n + d \<longrightarrow> next_chunk env k = Raises (ex k) \<and> is_Exception (ex k)) \<and>
      next_chunk env (Suc (n + d)) = Returns (status, resp) \<and>
      file_id (Returns (status, resp)) = Some fid \<longrightarrow>
      chunk_loop env n fx a =
        Some (fx @ concat (map (\<lambda>k. [Print (DbgRequestingChunk k),
                                      Print (DbgChunkException (ex k)), Sleep 1])
                             [Suc n ..< Suc (n + d)])
                 @ [Print (DbgRequestingChunk (Suc (n + d)))]
                 @ fst (note_status (remaining env (Suc (n + d))) status a)
                 @ fst (note_resp resp (snd (note_status (remaining env (Suc (n + d))) status a))),
              fst (snd (note_resp resp (snd (note_status (remaining env (Suc (n + d))) status a)))),
              Inr fid))"
proof (intro conjI allI impI)
  fix e assume "next_chunk env (Suc n) = Raises e \<and> is_Exception e"
  then have "next_chunk env (Suc n) = Raises e" and "is_Exception e" by (simp_all only:)
  then show "chunk_loop env n fx a =
         chunk_loop env (Suc n)
           (fx @ [Print (DbgRequestingChunk (Suc n)), Print (DbgChunkException e), Sleep 1]) a"
    by (rule chunk_loop_raise)
next
  fix fx' a' fid assume "chunk_loop env n fx a = Some (fx', a', Inr fid)"
  from chunk_loop_file_id [OF this, of fx' a' fid]
  show "\<exists>m>n. file_id (next_chunk env m) = Some fid" by (simp only: simp_thms)
next
  assume "\<forall>m>n. file_id (next_chunk env m) = None \<and> caught (next_chunk env m)"
  then show "chunk_loop env n fx a = None" by (rule chunk_loop_forever)
next
  fix d fid
  assume h: "file_id (next_chunk env (n + Suc d)) = Some fid \<and>
       (\<forall>k. n < k \<and> k < n + Suc d \<longrightarrow>
            file_id (next_chunk env k) = None \<and> caught (next_chunk env k))"
  from h have 1: "file_id (next_chunk env (n + Suc d)) = Some fid" ..
  from h have 2: "\<forall>k. n < k \<and> k < n + Suc d \<longrightarrow>
            file_id (next_chunk env k) = None \<and> caught (next_chunk env k)" ..
  from 1 2 show "chunk_loop env n fx a =
         Some (fst (fold (after_attempt env) [Suc n ..< Suc (n + Suc d)] (fx, a)),
               snd (fold (after_attempt env) [Suc n ..< Suc (n + Suc d)] (fx, a)), Inr fid)"
    by (rule chunk_loop_trace)
next
  fix k e gx b assume "next_chunk env k = Raises e"
  then show "after_attempt env k (gx, b)
         = (gx @ [Print (DbgRequestingChunk k), Print (DbgChunkException e), Sleep 1], b)"
    by (rule after_attempt_raise)
next
  fix d ex status resp fid
  assume h: "(\<forall>k. n < k \<and> k \<le> n + d \<longrightarrow> next_chunk env k = Raises (ex k) \<and> is_Exception (ex k)) \<and>
      next_chunk env (Suc (n + d)) = Returns (status, resp) \<and>
      file_id (Returns (status, resp)) = Some fid"
  from h have a1: "\<forall>k. n < k \<and> k \<le> n + d \<longrightarrow> next_chunk env k = Raises (ex k) \<and> is_Exception (ex k)"
    by (rule conjunct1)
  from h have a2: "next_chunk env (Suc (n + d)) = Returns (status, resp)" by (simp only:)
  from h have a3: "file_id (Returns (status, resp)) = Some fid" by (simp only:)
  from a1 a2 a3 show "chunk_loop env n fx a =
        Some (fx @ concat (map (\<lambda>k. [Print (DbgRequestingChunk k),
                                      Print (DbgChunkException (ex k)), Sleep 1])
                             [Suc n ..< Suc (n + d)])
                 @ [Print (DbgRequestingChunk (Suc (n + d)))]
                 @ fst (note_status (remaining env (Suc (n + d))) status a)
                 @ fst (note_resp resp (snd (note_status (remaining env (Suc (n + d))) status a))),
              fst (snd (note_resp resp (snd (note_status (remaining env (Suc (n + d))) status a)))),
              Inr fid)"
    by (rule chunk_loop_retries)
qed

text \<open>
  The theorem at an upload whose third call returns the file ID F1 and whose other
  calls raise \<^verbatim>\<open>OSError\<close>: entered at the start, the loop returns F1 with a trace that
  holds two exception lines, each followed by a sleep of one second; entered after
  the third call it never ends.
\<close>

theorem upload_retry_policy_witness:
  "(let env = \<lparr>build_drive = Returns (), getsize = Returns 1, media_upload = Returns (),
       next_chunk = (\<lambda>k. if k = 3 then Returns (None, Some [(''id'', ''F1'')])
                          else Raises (OSError ''net'')),
       remaining = (\<lambda>k. 0), set_permissions = Returns ()\<rparr>
    in next_chunk env (Suc 0) = Raises (OSError ''net'') \<and> is_Exception (OSError ''net'') \<and>
       chunk_loop env 0 [] init_app =
         chunk_loop env (Suc 0)
           ([] @ [Print (DbgRequestingChunk (Suc 0)),
                  Print (DbgChunkException (OSError ''net'')), Sleep 1]) init_app \<and>
       next_chunk env 1 = Raises (OSError ''net'') \<and>
       next_chunk env 2 = Raises (OSError ''net'') \<and>
       next_chunk env (Suc (0 + 2)) = Returns (None, Some [(''id'', ''F1'')]) \<and>
       file_id (Returns (None, Some [(''id'', ''F1'')])) = Some ''F1'' \<and>
       chunk_loop env 0 [] init_app
         = Some ([Print (DbgRequestingChunk 1), Print (DbgChunkException (OSError ''net'')),
                  Sleep 1,
                  Print (DbgRequestingChunk 2), Print (DbgChunkException (OSError ''net'')),
                  Sleep 1,
                  Print (DbgRequestingChunk 3), Print DbgStatusNone,
                  Print (DbgFileId (Some ''F1''))],
                 init_app\<lparr>upload_frac := 1, upload_rem := 0\<rparr>, Inr ''F1'') \<and>
       (\<exists>m>0. file_id (next_chunk env m) = Some ''F1'') \<and>
       file_id (next_chunk env (0 + Suc 2)) = Some ''F1'' \<and>
       file_id (next_chunk env 1) = None \<and> caught (next_chunk env 1) \<and>
       file_id (next_chunk env 2) = None \<and> caught (next_chunk env 2) \<and>
       chunk_loop env 0 [] init_app
         = Some (fst (fold (after_attempt env) [Suc 0 ..< Suc (0 + Suc 2)] ([], init_app)),
                 snd (fold (after_attempt env) [Suc 0 ..< Suc (0 + Suc 2)] ([], init_app)),
                 Inr ''F1'') \<and>
       after_attempt env 1 ([], init_app)
         = ([] @ [Print (DbgRequestingChunk 1), Print (DbgChunkException (OSError ''net'')),
                  Sleep 1], init_app) \<and>
       file_id (next_chunk env 4) = None \<and> caught (next_chunk env 4) \<and>
       chunk_loop env 3 [] init_app = None)"
proof -
  let ?env = "\<lparr>build_drive = Returns (), getsize = Returns 1, media_upload = Returns (),
       next_chunk = (\<lambda>k. if k = 3 then Returns (None, Some [(''id'', ''F1'')])
                          else Raises (OSError ''net'')),
       remaining = (\<lambda>k. 0), set_permissions = Returns ()\<rparr>"
  note t0 = upload_retry_policy [of ?env 0 "[]" init_app]
  note t3 = upload_retry_policy [of ?env 3 "[]" init_app]
  have a: "next_chunk ?env (Suc 0) = Raises (OSError ''net'') \<and> is_Exception (OSError ''net'')"
    by simp
  have a1: "\<forall>k. 0 < k \<and> k \<le> 0 + 2 \<longrightarrow>
      next_chunk ?env k = Raises (OSError ''net'') \<and> is_Exception (OSError ''net'')"
    by simp
  have a2: "next_chunk ?env (Suc (0 + 2)) = Returns (None, Some [(''id'', ''F1'')])" by simp
  have a3: "file_id (Returns (None, Some [(''id'', ''F1'')])) = Some ''F1''"
    by (simp add: file_id_def)
  have b: "file_id (next_chunk ?env (0 + Suc 2)) = Some ''F1'' \<and>
    (\<forall>k. 0 < k \<and> k < 0 + Suc 2 \<longrightarrow>
       file_id (next_chunk ?env k) = None \<and> caught (next_chunk ?env k))"
    by (simp add: file_id_def caught_def)
  have c: "\<forall>m>3. file_id (next_chunk ?env m) = None \<and> caught (next_chunk ?env m)"
    by (simp add: file_id_def caught_def)
  have r1: "next_chunk ?env 1 = Raises (OSError ''net'')" by simp
  from t0 a have c1: "chunk_loop ?env 0 [] init_app =
         chunk_loop ?env (Suc 0)
           ([] @ [Print (DbgRequestingChunk (Suc 0)),
                  Print (DbgChunkException (OSError ''net'')), Sleep 1]) init_app"
    by blast
  have u: "[Suc 0 ..< Suc (0 + 2)] = [1, 2]" by (simp add: upt_rec)
  have c6: "chunk_loop ?env 0 [] init_app
         = Some ([Print (DbgRequestingChunk 1), Print (DbgChunkException (OSError ''net'')),
                  Sleep 1,
                  Print (DbgRequestingChunk 2), Print (DbgChunkException (OSError ''net'')),
                  Sleep 1,
                  Print (DbgRequestingChunk 3), Print DbgStatusNone,
                  Print (DbgFileId (Some ''F1''))],
                 init_app\<lparr>upload_frac := 1, upload_rem := 0\<rparr>, Inr ''F1'')"
    using t0 [THEN conjunct2, THEN conjunct2, THEN conjunct2, THEN conjunct2, THEN conjunct2,
              THEN spec [where x = 2], THEN spec [where x = "\<lambda>k. OSError ''net''"],
              THEN spec [where x = None], THEN spec [where x = "Some [(''id'', ''F1'')]"],
              THEN spec [where x = "''F1''"], THEN mp, OF conjI [OF a1 conjI [OF a2 a3]]]
    unfolding u by (simp add: note_status_def note_resp_def Let_def)
  note c2 = t0 [THEN conjunct2, THEN conjunct1, THEN spec, THEN spec, THEN spec, THEN mp, OF c6]
  note c4 = t0 [THEN conjunct2, THEN conjunct2, THEN conjunct2, THEN conjunct1,
                THEN spec [where x = 2], THEN spec [where x = "''F1''"], THEN mp, OF b]
  note c5 = t0 [THEN conjunct2, THEN conjunct2, THEN conjunct2, THEN conjunct2, THEN conjunct1,
                THEN spec [where x = 1], THEN spec [where x = "OSError ''net''"],
                THEN spec [where x = "[]"], THEN spec [where x = init_app], THEN mp, OF r1]
  note c3 = t3 [THEN conjunct2, THEN conjunct2, THEN conjunct1, THEN mp, OF c]
  note a' = a [THEN conjunct1] a [THEN conjunct2]
  note b' = b [THEN conjunct1]
  have r2: "next_chunk ?env 2 = Raises (OSError ''net'')" by simp
  have f1: "file_id (next_chunk ?env 1) = None" and k1: "caught (next_chunk ?env 1)"
    and f2: "file_id (next_chunk ?env 2) = None" and k2: "caught (next_chunk ?env 2)"
    and f4: "file_id (next_chunk ?env 4) = None" and k4: "caught (next_chunk ?env 4)"
    by (simp_all add: file_id_def caught_def)
  show ?thesis unfolding Let_def
    by (intro conjI) (fact a' c1 r1 r2 a2 a3 c6 c2 b' f1 k1 f2 k2 c4 c5 f4 k4 c3)+
qed

section \<open>The guard socket\<close>

text \<open>
  Claim C5. At the start the program binds the fixed port 65432 on localhost. If the
  bind raises an \<^verbatim>\<open>OSError\<close>, the process exits with the message \<^verbatim>\<open>Already running.\<close>
  before anything of the pipeline has run; if the bind succeeds, the program goes on:
  the secondary players, the controller with its render thread, the event loop.
\<close>

theorem guard_socket_prevents_double_launch:
  "(sock_create env = Returns () \<and> sock_bind env (''localhost'', 65432) = Raises e \<and>
      is_OSError e \<longrightarrow>
      main_script env x = ([], None, Some (SystemExit ''Already running.''))) \<and>
   (sock_create env = Returns () \<and> sock_bind env (''localhost'', 65432) = Returns () \<longrightarrow>
      main_script env x
        = ([SecondaryLoops INPUT_VIDEO] @ fst (app_init x) @ [Mainloop], Some init_app, None) \<and>
      SpawnThread RunConversion \<in> set (fst (main_script env x)))"
  by (simp add: main_script_def guard_sock_def GUARD_PORT_def already_running_def app_init_def)

text \<open>The theorem at a port already in use and at a free port.\<close>

theorem guard_socket_prevents_double_launch_witness:
  "is_OSError (OSError ''Address already in use'') \<and>
   main_script \<lparr>sock_create = Returns (),
                sock_bind = (\<lambda>addr. Raises (OSError ''Address already in use''))\<rparr> 0
     = ([], None, Some (SystemExit ''Already running.'')) \<and>
   main_script \<lparr>sock_create = Returns (), sock_bind = (\<lambda>addr. Returns ())\<rparr> 0
     = ([SecondaryLoops INPUT_VIDEO] @ fst (app_init 0) @ [Mainloop], Some init_app, None)"
proof -
  have o: "is_OSError (OSError ''Address already in use'')" by simp
  from guard_socket_prevents_double_launch
         [of "\<lparr>sock_create = Returns (),
               sock_bind = (\<lambda>addr. Raises (OSError ''Address already in use''))\<rparr>"
             "OSError ''Address already in use''" 0]
       guard_socket_prevents_double_launch
         [of "\<lparr>sock_create = Returns (), sock_bind = (\<lambda>addr. Returns ())\<rparr>"
             "OSError ''Address already in use''" 0] o
  show ?thesis by simp
qed

section \<open>What the workers do to the UI\<close>

lemma note_status_effects: "filter ui_effect (fst (note_status t status a)) = []"
  by (simp add: note_status_def Let_def split: option.splits)

lemma note_resp_effects: "filter ui_effect (fst (note_resp resp a)) = []"
  by (simp add: note_resp_def Let_def split: option.splits)

lemma loop_body_effects:
  fixes loop :: "upload_env \<Rightarrow> nat \<Rightarrow> effect list \<Rightarrow> app \<Rightarrow> (effect list \<times> app \<times> (exn + string)) option"
  assumes body: "(let attempt1 = n + 1;
          fx1 = fx @ [Print (DbgRequestingChunk attempt1)]
      in case next_chunk env attempt1 of
           Raises e \<Rightarrow>
             if is_Exception e
             then loop env attempt1 (fx1 @ [Print (DbgChunkException e), Sleep 1]) a
             else Some (fx1, a, Inl e)
         | Returns (status, resp) \<Rightarrow>
             (case note_status (remaining env attempt1) status a of (fx2, a2) \<Rightarrow>
              case note_resp resp a2 of (fx3, a3, fid) \<Rightarrow>
                (case fid of
                   None \<Rightarrow> loop env attempt1 (fx1 @ fx2 @ fx3) a3
                 | Some f \<Rightarrow> Some (fx1 @ fx2 @ fx3, a3, Inr f)))) = Some y"
  shows "(\<exists>fx1 a1. loop env (Suc n) fx1 a1 = Some y \<and> filter ui_effect fx1 = filter ui_effect fx) \<or>
         filter ui_effect (fst y) = filter ui_effect fx"
proof -
  from body have step: "(case next_chunk env (Suc n) of
           Raises e \<Rightarrow>
             if is_Exception e
             then loop env (Suc n) ((fx @ [Print (DbgRequestingChunk (Suc n))]) @ [Print (DbgChunkException e), Sleep 1]) a
             else Some (fx @ [Print (DbgRequestingChunk (Suc n))], a, Inl e)
         | Returns (status, resp) \<Rightarrow>
             (case note_status (remaining env (Suc n)) status a of (fx2, a2) \<Rightarrow>
              case note_resp resp a2 of (fx3, a3, fid) \<Rightarrow>
                (case fid of
                   None \<Rightarrow> loop env (Suc n) ((fx @ [Print (DbgRequestingChunk (Suc n))]) @ fx2 @ fx3) a3
                 | Some f \<Rightarrow> Some ((fx @ [Print (DbgRequestingChunk (Suc n))]) @ fx2 @ fx3, a3, Inr f)))) = Some y"
    unfolding Let_def by (simp only: Suc_eq_plus1)
  show ?thesis
  proof (cases "next_chunk env (Suc n)")
    case (Raises e)
    show ?thesis
    proof (cases "is_Exception e")
      case True
      from step have "loop env (Suc n) ((fx @ [Print (DbgRequestingChunk (Suc n))])
            @ [Print (DbgChunkException e), Sleep 1]) a = Some y"
        unfolding Raises outcome.case using True by simp
      moreover have "filter ui_effect ((fx @ [Print (DbgRequestingChunk (Suc n))])
            @ [Print (DbgChunkException e), Sleep 1]) = filter ui_effect fx" by simp
      ultimately show ?thesis by blast
    next
      case False
      from step have "y = (fx @ [Print (DbgRequestingChunk (Suc n))], a, Inl e)"
        unfolding Raises outcome.case using False by simp
      then have "filter ui_effect (fst y) = filter ui_effect fx" by simp
      then show ?thesis ..
    qed
  next
    case (Returns c)
    obtain status resp where c: "c = (status, resp)" by (cases c)
    obtain fx2 a2 where ns: "note_status (remaining env (Suc n)) status a = (fx2, a2)"
      by (cases "note_status (remaining env (Suc n)) status a")
    obtain fx3 a3 fid where nr: "note_resp resp a2 = (fx3, a3, fid)"
      by (cases "note_resp resp a2") auto
    from note_status_effects [of "remaining env (Suc n)" status a] ns
    have e2: "filter ui_effect fx2 = []" by simp
    from note_resp_effects [of resp a2] nr have e3: "filter ui_effect fx3 = []" by simp
    have e: "filter ui_effect ((fx @ [Print (DbgRequestingChunk (Suc n))]) @ fx2 @ fx3)
        = filter ui_effect fx" by (simp add: e2 e3)
    from step have s2: "(case fid of
                   None \<Rightarrow> loop env (Suc n) ((fx @ [Print (DbgRequestingChunk (Suc n))]) @ fx2 @ fx3) a3
                 | Some f \<Rightarrow> Some ((fx @ [Print (DbgRequestingChunk (Suc n))]) @ fx2 @ fx3, a3, Inr f)) = Some y"
      unfolding Returns c outcome.case prod.case ns nr .
    show ?thesis
    proof (cases fid)
      case None
      with s2 have "loop env (Suc n) ((fx @ [Print (DbgRequestingChunk (Suc n))]) @ fx2 @ fx3) a3 = Some y"
        by simp
      with e show ?thesis by blast
    next
      case (Some f)
      with s2 have "y = ((fx @ [Print (DbgRequestingChunk (Suc n))]) @ fx2 @ fx3, a3, Inr f)"
        by simp
      then have "fst y = (fx @ [Print (DbgRequestingChunk (Suc n))]) @ fx2 @ fx3" by simp
      with e have "filter ui_effect (fst y) = filter ui_effect fx" by (simp only:)
      then show ?thesis ..
    qed
  qed
qed

lemma chunk_loop_effects:
  assumes "chunk_loop env n fx a = Some y"
  shows "filter ui_effect (fst y) = filter ui_effect fx"
proof (rule chunk_loop.raw_induct
    [where P = "\<lambda>env n fx a y. filter ui_effect (fst y) = filter ui_effect fx",
     OF _ assms])
  fix loop :: "upload_env \<Rightarrow> nat \<Rightarrow> effect list \<Rightarrow> app \<Rightarrow> (effect list \<times> app \<times> (exn + string)) option"
  fix env n fx a y
  assume ih: "\<And>env n fx a y. loop env n fx a = Some y \<Longrightarrow>
      filter ui_effect (fst y) = filter ui_effect fx"
  assume body: "(let attempt1 = n + 1;
          fx1 = fx @ [Print (DbgRequestingChunk attempt1)]
      in case next_chunk env attempt1 of
           Raises e \<Rightarrow>
             if is_Exception e
             then loop env attempt1 (fx1 @ [Print (DbgChunkException e), Sleep 1]) a
             else Some (fx1, a, Inl e)
         | Returns (status, resp) \<Rightarrow>
             (case note_status (remaining env attempt1) status a of (fx2, a2) \<Rightarrow>
              case note_resp resp a2 of (fx3, a3, fid) \<Rightarrow>
                (case fid of
                   None \<Rightarrow> loop env attempt1 (fx1 @ fx2 @ fx3) a3
                 | Some f \<Rightarrow> Some (fx1 @ fx2 @ fx3, a3, Inr f)))) = Some y"
  from loop_body_effects [where loop = loop and env = env and n = n and fx = fx and a = a and y = y, OF body]
  consider fx1 a1 where "loop env (Suc n) fx1 a1 = Some y" "filter ui_effect fx1 = filter ui_effect fx"
    | "filter ui_effect (fst y) = filter ui_effect fx"
    by blast
  then show "filter ui_effect (fst y) = filter ui_effect fx"
  proof cases
    case 1
    from ih [OF 1(1)] 1(2) show ?thesis by (simp only:)
  next
    case 2
    then show ?thesis .
  qed
qed

lemma printed_effects:
  "printed_and_ignored r ok err = Inr fx \<Longrightarrow> filter ui_effect fx = []"
  by (auto simp: printed_and_ignored_def split: outcome.splits if_splits)

lemma start_upload_effects:
  assumes "start_upload env a = Some (fx, a', r)"
  shows "filter ui_effect fx = [] \<and> (r = None \<longrightarrow> upload_done a')"
proof (cases "build_drive env")
  case (Raises e)
  with assms show ?thesis by (auto simp: start_upload_def Let_def)
next
  case b: (Returns u)
  show ?thesis
  proof (cases "printed_and_ignored (getsize env) DbgFileSize DbgNoFileSize")
    case (Inl e)
    with assms b show ?thesis by (auto simp: start_upload_def Let_def)
  next
    case g: (Inr fxs)
    from printed_effects [OF g] have fxs: "filter ui_effect fxs = []" .
    show ?thesis
    proof (cases "media_upload env")
      case (Raises e)
      with assms b g fxs show ?thesis by (auto simp: start_upload_def Let_def)
    next
      case m: (Returns u2)
      show ?thesis
      proof (cases "chunk_loop env 0 ([Print (DbgStartingUpload (converted a))] @ fxs) a")
        case None
        with assms b g m show ?thesis by (simp add: start_upload_def Let_def)
      next
        case (Some y)
        from chunk_loop_effects [OF Some] fxs have fy: "filter ui_effect (fst y) = []" by simp
        obtain fx1 a1 res where y: "y = (fx1, a1, res)" by (cases y)
        with fy have f1: "filter ui_effect fx1 = []" by simp
        show ?thesis
        proof (cases res)
          case (Inl e)
          with assms b g m Some y f1 show ?thesis by (auto simp: start_upload_def Let_def)
        next
          case (Inr fid)
          show ?thesis
          proof (cases "printed_and_ignored (set_permissions env)
                                       (\<lambda>u. DbgPermissionsSet) DbgPermissionsException")
            case pl: (Inl e)
            with assms b g m Some y f1 Inr show ?thesis by (auto simp: start_upload_def Let_def)
          next
            case pr: (Inr fxp)
            from printed_effects [OF pr] have "filter ui_effect fxp = []" .
            with assms b g m Some y f1 Inr pr show ?thesis
              by (auto simp: start_upload_def Let_def)
          qed
        qed
      qed
    qed
  qed
qed

lemma run_conversion_ui:
  assumes "run_conversion env b = (gx, b', q)"
  shows "filter ui_effect gx = [] \<or>
         (\<exists>p. filter ui_effect gx = [RootAfter 0 (CbPlay p)] \<and> conversion_done b' \<and>
              converted b' = Some p \<and> q = None)"
proof -
  obtain fx0 r where l: "launch_resolve_headless env = (fx0, r)"
    by (cases "launch_resolve_headless env")
  have "fx0 = [] \<or> (\<exists>exe. fx0 = [SpawnProcess [exe, ''-nogui'']])"
    using l
    by (auto simp: launch_resolve_headless_def
        split: outcome.splits bool.splits sum.splits prod.splits if_splits)
  then have f0: "filter ui_effect fx0 = []" by auto
  from assms l f0 show ?thesis
    by (auto simp: run_conversion_def Let_def split: sum.splits outcome.splits if_splits)
qed

lemma sample_upload:
  "start_upload
     \<lparr>build_drive = Returns (), getsize = Returns 1, media_upload = Returns (),
       next_chunk = (\<lambda>k. if k = 2 then Returns (None, Some [(''id'', ''F1'')])
                          else Raises (OSError ''net'')),
       remaining = (\<lambda>k. 0), set_permissions = Returns ()\<rparr>
     (init_app\<lparr>converted := Some ''out.mp4'', conversion_done := True\<rparr>)
   = Some ([Print (DbgStartingUpload (Some ''out.mp4'')), Print (DbgFileSize 1),
            Print (DbgRequestingChunk 1), Print (DbgChunkException (OSError ''net'')), Sleep 1,
            Print (DbgRequestingChunk 2), Print DbgStatusNone, Print (DbgFileId (Some ''F1'')),
            Print (DbgSettingPermissions ''F1''), Print DbgPermissionsSet,
            Print (DbgFinalLink ''https://drive.google.com/file/d/F1/view?usp=sharing'')],
           init_app\<lparr>converted := Some ''out.mp4'', conversion_done := True,
             upload_frac := 1, upload_rem := 0,
             upload_link := Some ''https://drive.google.com/file/d/F1/view?usp=sharing'',
             upload_done := True\<rparr>,
           None)"
  apply (simp add: start_upload_def printed_and_ignored_def Let_def)
  apply (subst chunk_loop.simps)
  apply (simp add: Let_def)
  apply (subst chunk_loop.simps)
  apply (simp add: Let_def note_status_def note_resp_def init_app_def printed_and_ignored_def)
  done

section \<open>Failures of external calls\<close>


text \<open>
  A required path that is missing: the \<^verbatim>\<open>SystemExit\<close> of \<^verbatim>\<open>locate_paths\<close> is not an instance
  of \<^verbatim>\<open>Exception\<close>, so it passes the \<^verbatim>\<open>except\<close> clause of \<^verbatim>\<open>_run_conversion\<close>: nothing is
  printed and the exception leaves the function of the render thread.
\<close>

lemma missing_path_leaves_thread:
  "run_conversion
     \<lparr>resolve_running = Returns False, required_paths = (''exe'', ''dll'', ''mods''),
      path_exists = (\<lambda>p. p \<noteq> ''dll''), is_file = (\<lambda>p. True), popen_resolve = Returns (),
      headless_render = Returns ''out.mp4'', secondary_loops = Returns ()\<rparr> init_app
   = ([], init_app, Some (SystemExit ''Required file not found: dll''))"
  by (simp add: run_conversion_def launch_resolve_headless_def locate_paths_def)



section \<open>How completion reaches the UI\<close>

text \<open>
  Claim C4 says that no worker delivers completion to the UI except through polled
  flags. A render that succeeds ends with \<^verbatim>\<open>root.after(0, ...)\<close>: the render thread itself
  schedules the callback that swaps the preview.
\<close>

theorem render_worker_schedules_callback_counterexample:
  "run_conversion
     \<lparr>resolve_running = Returns True, required_paths = ([], [], []),
      path_exists = (\<lambda>p. True), is_file = (\<lambda>p. True), popen_resolve = Returns (),
      headless_render = Returns ''out.mp4'', secondary_loops = Returns ()\<rparr> init_app
   = ([TrimToDuration ''out.mp4'', TerminateSecondary, SecondaryLoops ''out.mp4'',
       RootAfter 0 (CbPlay ''out.mp4'')],
      init_app\<lparr>converted := Some ''out.mp4'', conversion_done := True\<rparr>, None) \<and>
   ui_effect (RootAfter 0 (CbPlay ''out.mp4''))"
  by (simp add: run_conversion_def launch_resolve_headless_def init_app_def)

text \<open>
  Claim C4, amended. The upload thread touches the UI toolkit nowhere: whenever
  \<^verbatim>\<open>_start_upload\<close> ends, none of its effects is a scheduled callback or a widget update,
  and when it ends without an exception \<^verbatim>\<open>upload_done\<close> is True. The render thread
  touches the UI toolkit at most once: either not at all, or, having set
  \<^verbatim>\<open>conversion_done\<close> and \<^verbatim>\<open>converted\<close>, by the single call \<^verbatim>\<open>root.after(0, ...)\<close> that plays
  the rendered file. The two flags are read by the polls of the UI event loop, each of
  which re-arms itself after 1000 ms exactly while its flag is False.
\<close>

theorem workers_signal_completion:
  "(start_upload uenv a = Some (fx, a', r) \<longrightarrow>
      filter ui_effect fx = [] \<and> (r = None \<longrightarrow> upload_done a')) \<and>
   (run_conversion renv b = (gx, b', q) \<longrightarrow>
      filter ui_effect gx = [] \<or>
      (\<exists>p. filter ui_effect gx = [RootAfter 0 (CbPlay p)] \<and> conversion_done b' \<and>
           converted b' = Some p \<and> q = None)) \<and>
   (RootAfter 1000 CbFakeProgress \<in> set (schedule_fake_progress x c) \<longleftrightarrow> \<not> conversion_done c) \<and>
   (RootAfter 1000 CbUpdateUploadStatus \<in> set (update_upload_status c) \<longleftrightarrow> \<not> upload_done c)"
proof -
  have 1: "start_upload uenv a = Some (fx, a', r) \<longrightarrow>
      filter ui_effect fx = [] \<and> (r = None \<longrightarrow> upload_done a')"
    using start_upload_effects [of uenv a fx a' r] by blast
  have 2: "run_conversion renv b = (gx, b', q) \<longrightarrow>
      filter ui_effect gx = [] \<or>
      (\<exists>p. filter ui_effect gx = [RootAfter 0 (CbPlay p)] \<and> conversion_done b' \<and>
           converted b' = Some p \<and> q = None)"
    using run_conversion_ui [of renv b gx b' q] by blast
  have 3: "RootAfter 1000 CbFakeProgress \<in> set (schedule_fake_progress x c) \<longleftrightarrow> \<not> conversion_done c"
    by (simp add: schedule_fake_progress_def)
  have 4: "RootAfter 1000 CbUpdateUploadStatus \<in> set (update_upload_status c) \<longleftrightarrow> \<not> upload_done c"
    by (simp add: update_upload_status_def Let_def)
  from 1 2 3 4 show ?thesis by (intro conjI)
qed

text \<open>
  The theorem at an upload whose second chunk request returns the file ID, at a
  render that succeeds, and at the two polls in the initial state.
\<close>

theorem workers_signal_completion_witness:
  "start_upload
     \<lparr>build_drive = Returns (), getsize = Returns 1, media_upload = Returns (),
       next_chunk = (\<lambda>k. if k = 2 then Returns (None, Some [(''id'', ''F1'')])
                          else Raises (OSError ''net'')),
       remaining = (\<lambda>k. 0), set_permissions = Returns ()\<rparr>
     (init_app\<lparr>converted := Some ''out.mp4'', conversion_done := True\<rparr>)
   = Some ([Print (DbgStartingUpload (Some ''out.mp4'')), Print (DbgFileSize 1),
            Print (DbgRequestingChunk 1), Print (DbgChunkException (OSError ''net'')), Sleep 1,
            Print (DbgRequestingChunk 2), Print DbgStatusNone, Print (DbgFileId (Some ''F1'')),
            Print (DbgSettingPermissions ''F1''), Print DbgPermissionsSet,
            Print (DbgFinalLink ''https://drive.google.com/file/d/F1/view?usp=sharing'')],
           init_app\<lparr>converted := Some ''out.mp4'', conversion_done := True,
             upload_frac := 1, upload_rem := 0,
             upload_link := Some ''https://drive.google.com/file/d/F1/view?usp=sharing'',
             upload_done := True\<rparr>,
           None) \<and>
   upload_done (init_app\<lparr>converted := Some ''out.mp4'', conversion_done := True,
             upload_frac := 1, upload_rem := 0,
             upload_link := Some ''https://drive.google.com/file/d/F1/view?usp=sharing'',
             upload_done := True\<rparr>) \<and>
   run_conversion
     \<lparr>resolve_running = Returns True, required_paths = ([], [], []),
      path_exists = (\<lambda>p. True), is_file = (\<lambda>p. True), popen_resolve = Returns (),
      headless_render = Returns ''out.mp4'', secondary_loops = Returns ()\<rparr> init_app
   = ([TrimToDuration ''out.mp4'', TerminateSecondary, SecondaryLoops ''out.mp4'',
       RootAfter 0 (CbPlay ''out.mp4'')],
      init_app\<lparr>converted := Some ''out.mp4'', conversion_done := True\<rparr>, None) \<and>
   filter ui_effect [TrimToDuration ''out.mp4'', TerminateSecondary, SecondaryLoops ''out.mp4'',
       RootAfter 0 (CbPlay ''out.mp4'')] = [RootAfter 0 (CbPlay ''out.mp4'')] \<and>
   \<not> conversion_done init_app \<and>
   RootAfter 1000 CbFakeProgress \<in> set (schedule_fake_progress 0 init_app) \<and>
   \<not> upload_done init_app \<and>
   RootAfter 1000 CbUpdateUploadStatus \<in> set (update_upload_status init_app)"
proof -
  let ?u = "\<lparr>build_drive = Returns (), getsize = Returns 1, media_upload = Returns (),
       next_chunk = (\<lambda>k. if k = 2 then Returns (None, Some [(''id'', ''F1'')])
                          else Raises (OSError ''net'')),
       remaining = (\<lambda>k. 0), set_permissions = Returns ()\<rparr>"
  let ?r = "\<lparr>resolve_running = Returns True, required_paths = ([], [], []),
      path_exists = (\<lambda>p. True), is_file = (\<lambda>p. True), popen_resolve = Returns (),
      headless_render = Returns ''out.mp4'', secondary_loops = Returns ()\<rparr>"
  let ?fx = "[Print (DbgStartingUpload (Some ''out.mp4'')), Print (DbgFileSize 1),
            Print (DbgRequestingChunk 1), Print (DbgChunkException (OSError ''net'')), Sleep 1,
            Print (DbgRequestingChunk 2), Print DbgStatusNone, Print (DbgFileId (Some ''F1'')),
            Print (DbgSettingPermissions ''F1''), Print DbgPermissionsSet,
            Print (DbgFinalLink ''https://drive.google.com/file/d/F1/view?usp=sharing'')]"
  let ?a' = "init_app\<lparr>converted := Some ''out.mp4'', conversion_done := True,
             upload_frac := 1, upload_rem := 0,
             upload_link := Some ''https://drive.google.com/file/d/F1/view?usp=sharing'',
             upload_done := True\<rparr>"
  let ?gx = "[TrimToDuration ''out.mp4'', TerminateSecondary, SecondaryLoops ''out.mp4'',
       RootAfter 0 (CbPlay ''out.mp4'')]"
  let ?b' = "init_app\<lparr>converted := Some ''out.mp4'', conversion_done := True\<rparr>"
  have u: "start_upload ?u (init_app\<lparr>converted := Some ''out.mp4'', conversion_done := True\<rparr>)
      = Some (?fx, ?a', None)"
    by (rule sample_upload)
  have r: "run_conversion ?r init_app = (?gx, ?b', None)"
    by (simp add: run_conversion_def launch_resolve_headless_def init_app_def)
  have f: "filter ui_effect ?gx = [RootAfter 0 (CbPlay ''out.mp4'')]" by simp
  have n: "\<not> conversion_done init_app \<and> \<not> upload_done init_app" by (simp add: init_app_def)
  from workers_signal_completion
         [of ?u "init_app\<lparr>converted := Some ''out.mp4'', conversion_done := True\<rparr>" ?fx ?a' None
             ?r init_app ?gx ?b' None 0 init_app] u r f n
  show ?thesis by blast
qed

end
